theory Spec2Isabelle
  imports Complex_Main "HOL-Library.Char_ord" "HOL-Library.List_Lexorder"
begin

section \<open>Conciliation pipeline of scripts/process\_conciliation.py\<close>

text \<open>
  Strings are \<^typ>\<open>string\<close>, one \<^typ>\<open>char\<close> per byte of the UTF-8 text. The
  Python string methods below are modelled on ASCII: a byte outside ASCII is neither
  white space nor a letter with a lower-case form.
\<close>

subsection \<open>Python string helpers\<close>

text \<open>\<^verbatim>\<open>str.isspace\<close> on one ASCII character.\<close>

definition is_space :: "char \<Rightarrow> bool" where
  "is_space c = (of_char c \<in> {9, 10, 11, 12, 13, 28, 29, 30, 31, 32 :: nat})"

text \<open>\<^verbatim>\<open>str.strip()\<close>: white space removed at both ends.\<close>

definition strip :: "string \<Rightarrow> string" where
  "strip s = rev (dropWhile is_space (rev (dropWhile is_space s)))"

definition lower_char :: "char \<Rightarrow> char" where
  "lower_char c =
     (if 65 \<le> (of_char c :: nat) \<and> (of_char c :: nat) \<le> 90
      then char_of ((of_char c :: nat) + 32) else c)"

text \<open>\<^verbatim>\<open>str.lower()\<close>.\<close>

definition lower :: "string \<Rightarrow> string" where
  "lower s = map lower_char s"

subsection \<open>Errors\<close>

text \<open>
  The exceptions of the pipeline. \<open>ValueError\<close> is raised by the code itself and by
  the worksheet parser, \<open>ReadError\<close> stands for any other exception of the file
  readers, \<open>FrameError\<close> for a column operation applied to a duplicated column label,
  \<open>StoreError\<close> for an exception raised by a call to the store.
\<close>

datatype error = ValueError | ReadError | FrameError | StoreError

subsection \<open>Layout detection (lines 62, 103--120)\<close>

definition V3_MARKERS :: "string set" where
  "V3_MARKERS = {''pedido_detalhes'', ''id_saldo'', ''metodo_pagamento'', ''bandeira_pagamento''}"

text \<open>
  \<^verbatim>\<open>normalize_layout_hint\<close>: \<open>None\<close> and the empty string are falsy; otherwise the
  hint is trimmed and lower-cased and kept only if it is one of the two literals.
\<close>

definition normalize_layout_hint :: "string option \<Rightarrow> string option" where
  "normalize_layout_hint layout_hint =
     (case layout_hint of
        None \<Rightarrow> None
      | Some h \<Rightarrow>
          if h = [] then None
          else (let h' = lower (strip h)
                in if h' \<in> {''legacy'', ''v3''} then Some h' else None))"

definition detect_layout :: "string set \<Rightarrow> string option \<Rightarrow> string" where
  "detect_layout columns layout_hint =
     (case normalize_layout_hint layout_hint of
        Some normalized_hint \<Rightarrow> normalized_hint
      | None \<Rightarrow> if V3_MARKERS \<subseteq> columns then ''v3'' else ''legacy'')"

subsection \<open>Worksheet selection (lines 168--185)\<close>

text \<open>
  \<^verbatim>\<open>_select_sheet_name\<close> on the list of worksheet names of the workbook. The reads
  \<^verbatim>\<open>sheet_names[1]\<close> and \<^verbatim>\<open>sheet_names[0]\<close> are guarded by the length tests of the
  source, written here as patterns.
\<close>

definition select_sheet_name :: "string list \<Rightarrow> string option \<Rightarrow> error + string" where
  "select_sheet_name sheet_names layout_hint =
     (case sheet_names of
        [] \<Rightarrow> Inl ValueError
      | first # others \<Rightarrow>
          (let normalized_hint = normalize_layout_hint layout_hint
           in if normalized_hint = Some ''legacy'' \<and> length sheet_names > 1
              then Inr (hd others)
              else if normalized_hint = Some ''v3'' then Inr first
              else if length sheet_names > 1 then Inr (hd others)
              else Inr first))"

subsection \<open>Decimal digits\<close>

definition is_digit :: "char \<Rightarrow> bool" where
  "is_digit c = (48 \<le> (of_char c :: nat) \<and> (of_char c :: nat) \<le> 57)"

definition digit_val :: "char \<Rightarrow> nat" where
  "digit_val c = of_char c - 48"

definition nat_of_digits :: "string \<Rightarrow> nat" where
  "nat_of_digits ds = foldl (\<lambda>n c. 10 * n + digit_val c) 0 ds"

definition digit_char :: "nat \<Rightarrow> char" where
  "digit_char d = char_of (48 + d)"

fun digits_of_nat :: "nat \<Rightarrow> string" where
  "digits_of_nat n =
     (if n < 10 then [digit_char n]
      else digits_of_nat (n div 10) @ [digit_char (n mod 10)])"

text \<open>\<^verbatim>\<open>str(i)\<close> of a Python integer.\<close>

definition str_int :: "int \<Rightarrow> string" where
  "str_int i = (if i < 0 then CHR ''-'' # digits_of_nat (nat (- i)) else digits_of_nat (nat i))"

text \<open>\<^verbatim>\<open>str.zfill\<close> on a text of digits.\<close>

definition zfill :: "nat \<Rightarrow> string \<Rightarrow> string" where
  "zfill width s = replicate (width - length s) CHR ''0'' @ s"

subsection \<open>Values and tables\<close>

text \<open>
  A Python float is its decimal value when finite (rounding to binary64 and the
  magnitude limit are not modelled), or one of the three non-finite values.
\<close>

datatype pyfloat = Finite rat | NaN | PosInf | NegInf

datatype pyval = PNone | PStr string | PInt int | PFloat pyfloat

text \<open>
  A cell as the readers deliver it under \<^verbatim>\<open>dtype=object\<close>: missing (NaN), a text
  (every present CSV cell), or the integer or finite number of a numeric worksheet
  cell. Date and boolean worksheet cells are not modelled.
\<close>

datatype raw_cell = Missing | Text string | Integer int | Number rat

text \<open>
  The table read from the file: the header and the rows. A row shorter than the
  header is missing its last cells, as the CSV reader fills them.
\<close>

record raw_table =
  header :: "string list"
  body :: "raw_cell list list"

text \<open>A record of the dataframe, and a row of the store: a Python dict.\<close>

type_synonym row = "string \<Rightarrow> pyval option"

text \<open>\<^verbatim>\<open>dict.get(k)\<close>.\<close>

definition get :: "row \<Rightarrow> string \<Rightarrow> pyval" where
  "get d k = (case d k of None \<Rightarrow> PNone | Some v \<Rightarrow> v)"

text \<open>Truth value of a Python object in a condition.\<close>

fun truthy :: "pyval \<Rightarrow> bool" where
  "truthy PNone = False"
| "truthy (PStr s) = (s \<noteq> [])"
| "truthy (PInt i) = (i \<noteq> 0)"
| "truthy (PFloat (Finite r)) = (r \<noteq> 0)"
| "truthy (PFloat _) = True"

text \<open>
  What the code takes from its libraries and its environment: the text of a finite
  float (\<^verbatim>\<open>str\<close> and \<^verbatim>\<open>repr\<close>), \<^verbatim>\<open>pd.to_datetime(column, errors='coerce')\<close>
  followed by \<^verbatim>\<open>isoformat\<close> at one row of the column (\<open>None\<close> for NaT; pandas
  infers the format from the whole column), the name-based UUID in the URL name space,
  the MD5 hex digest, the clock, and the text and traceback of an exception.
\<close>

record env =
  float_str :: "rat \<Rightarrow> string"
  to_datetime_iso :: "pyval list \<Rightarrow> nat \<Rightarrow> string option"
  uuid5_url :: "string \<Rightarrow> string"
  md5_hex :: "string \<Rightarrow> string"
  now_utc :: string
  str_exc :: "error \<Rightarrow> string"
  format_exc :: "error \<Rightarrow> string"

text \<open>\<^verbatim>\<open>str(v)\<close>, as \<^verbatim>\<open>astype(str)\<close> applies it to each cell.\<close>

fun py_str :: "env \<Rightarrow> pyval \<Rightarrow> string" where
  "py_str e PNone = ''None''"
| "py_str e (PStr s) = s"
| "py_str e (PInt i) = str_int i"
| "py_str e (PFloat (Finite r)) = float_str e r"
| "py_str e (PFloat NaN) = ''nan''"
| "py_str e (PFloat PosInf) = ''inf''"
| "py_str e (PFloat NegInf) = ''-inf''"

subsection \<open>Column mappings (lines 18--95)\<close>

definition COLUMNS_MAPPING_LEGACY :: "(string \<times> string) list" where
  "COLUMNS_MAPPING_LEGACY =
   [(''competencia'', ''competence_date''),
    (''data_fato_gerador'', ''event_date''),
    (''fato_gerador'', ''event_trigger''),
    (''tipo_lancamento'', ''transaction_type''),
    (''descricao_lancamento'', ''transaction_description''),
    (''valor'', ''gross_value''),
    (''base_calculo'', ''calculation_base_value''),
    (''percentual_taxa'', ''tax_percentage''),
    (''pedido_associado_ifood'', ''ifood_order_id''),
    (''pedido_associado_ifood_curto'', ''ifood_order_id_short''),
    (''pedido_associado_externo'', ''external_order_id''),
    (''motivo_cancelamento'', ''cancellation_reason''),
    (''descricao_ocorrencia'', ''occurrence_description''),
    (''data_criacao_pedido_associado'', ''order_creation_date''),
    (''data_repasse_esperada'', ''expected_payment_date''),
    (''valor_transacao'', ''transaction_value''),
    (''loja_id'', ''store_id''),
    (''loja_id_curto'', ''store_id_short''),
    (''loja_id_externo'', ''store_id_external''),
    (''cnpj'', ''cnpj''),
    (''titulo'', ''title''),
    (''data_faturamento'', ''billing_date''),
    (''data_apuracao_inicio'', ''settlement_start_date''),
    (''data_apuracao_fim'', ''settlement_end_date''),
    (''valor_cesta_inicial'', ''initial_basket_value''),
    (''valor_cesta_final'', ''final_basket_value''),
    (''responsavel_transacao'', ''transaction_responsible''),
    (''canal_vendas'', ''sales_channel''),
    (''impacto_no_repasse'', ''payment_impact''),
    (''parcela_pagamento'', ''payment_installment''),
    (''pedido_detalhes'', ''order_details''),
    (''metodo_pagamento'', ''payment_method''),
    (''bandeira_pagamento'', ''payment_brand'')]"

text \<open>
  Assignment to a key of a dict held as an association list: an existing key keeps
  its place, a new key goes to the end.
\<close>

fun dict_set :: "'k \<Rightarrow> 'v \<Rightarrow> ('k \<times> 'v) list \<Rightarrow> ('k \<times> 'v) list" where
  "dict_set k v [] = [(k, v)]"
| "dict_set k v ((k', v') # al) =
     (if k = k' then (k, v) # al else (k', v') # dict_set k v al)"

definition COLUMNS_MAPPING_V3 :: "(string \<times> string) list" where
  "COLUMNS_MAPPING_V3 =
     dict_set ''bandeira_pagamento'' ''payment_brand''
       (dict_set ''metodo_pagamento'' ''payment_method''
         (dict_set ''id_saldo'' ''balance_id''
           (dict_set ''pedido_detalhes'' ''order_details'' COLUMNS_MAPPING_LEGACY)))"

text \<open>
  \<open>NATURAL_KEY_COLUMNS\<close> after the module has run: the literal list, and
  \<open>balance_id\<close> appended since the list does not hold it.
\<close>

definition NATURAL_KEY_COLUMNS :: "string list" where
  "NATURAL_KEY_COLUMNS =
     (let literal =
        [''competence_date'', ''event_date'', ''transaction_type'',
         ''transaction_description'', ''gross_value'', ''transaction_value'',
         ''ifood_order_id'', ''external_order_id'', ''store_id'', ''title'',
         ''billing_date'', ''settlement_start_date'', ''settlement_end_date'',
         ''payment_installment'']
      in if ''balance_id'' \<notin> set literal then literal @ [''balance_id''] else literal)"

definition EXTRA_COLUMNS :: "string list" where
  "EXTRA_COLUMNS =
     [''order_details'', ''payment_method'', ''payment_brand'', ''balance_id'',
      ''layout_version'']"

definition get_mapping_for_layout :: "string \<Rightarrow> (string \<times> string) list" where
  "get_mapping_for_layout layout_version =
     (if layout_version = ''v3'' then COLUMNS_MAPPING_V3 else COLUMNS_MAPPING_LEGACY)"

subsection \<open>Reading the file (lines 194--224)\<close>

text \<open>
  The file as the readers see it. A CSV file is given by what \<^verbatim>\<open>read_csv\<close> yields
  with the separator \<open>;\<close> and with the separator \<open>,\<close> (\<open>None\<close> when it raises). A
  workbook is the list of its worksheets, each with the outcome of parsing it: a
  table, a \<open>ValueError\<close>, or another exception. \<open>BrokenWorkbook\<close> is a file that
  \<^verbatim>\<open>pd.ExcelFile\<close> cannot open.
\<close>

datatype sheet_parse = Parsed raw_table | ParseValueError | ParseFailure

datatype source_file =
    CsvFile "raw_table option" "raw_table option"
  | Workbook "(string \<times> sheet_parse) list"
  | BrokenWorkbook

text \<open>\<^verbatim>\<open>excel_file.parse(sheet_name=0)\<close>, the fallback after a \<open>ValueError\<close>.\<close>

definition parse_first_sheet :: "(string \<times> sheet_parse) list \<Rightarrow> error + raw_table" where
  "parse_first_sheet sheets =
     (case sheets of
        [] \<Rightarrow> Inl ValueError
      | (name, Parsed t) # _ \<Rightarrow> Inr t
      | (name, ParseValueError) # _ \<Rightarrow> Inl ValueError
      | (name, ParseFailure) # _ \<Rightarrow> Inl ReadError)"

definition read_table :: "source_file \<Rightarrow> string option \<Rightarrow> error + raw_table" where
  "read_table file layout_hint =
     (case file of
        CsvFile semicolon comma \<Rightarrow>
          (case semicolon of
             Some original_df \<Rightarrow> Inr original_df
           | None \<Rightarrow>
               (case comma of Some original_df \<Rightarrow> Inr original_df | None \<Rightarrow> Inl ReadError))
      | BrokenWorkbook \<Rightarrow> Inl ReadError
      | Workbook sheets \<Rightarrow>
          (case select_sheet_name (map fst sheets) layout_hint of
             Inl e \<Rightarrow> Inl e
           | Inr selected_sheet \<Rightarrow>
               (case map_of sheets selected_sheet of
                  Some (Parsed original_df) \<Rightarrow> Inr original_df
                | Some ParseFailure \<Rightarrow> Inl ReadError
                | Some ParseValueError \<Rightarrow> parse_first_sheet sheets
                | None \<Rightarrow> parse_first_sheet sheets)))"


subsection \<open>Cleaning (lines 226--303)\<close>

definition rename_column :: "(string \<times> string) list \<Rightarrow> string \<Rightarrow> string" where
  "rename_column column_mapping c =
     (case map_of column_mapping c of Some c' \<Rightarrow> c' | None \<Rightarrow> c)"

definition date_columns :: "string list" where
  "date_columns =
     [''competence_date'', ''event_date'', ''order_creation_date'',
      ''expected_payment_date'', ''billing_date'', ''settlement_start_date'',
      ''settlement_end_date'']"

definition id_columns :: "string list" where
  "id_columns =
     [''ifood_order_id'', ''ifood_order_id_short'', ''external_order_id'', ''store_id'',
      ''store_id_short'', ''store_id_external'', ''cnpj'', ''balance_id'']"

definition value_columns :: "string list" where
  "value_columns =
     [''gross_value'', ''calculation_base_value'', ''tax_percentage'',
      ''transaction_value'', ''initial_basket_value'', ''final_basket_value'']"

text \<open>\<^verbatim>\<open>df.replace({np.nan: None})\<close> on one cell.\<close>

definition nan_to_none :: "pyval \<Rightarrow> pyval" where
  "nan_to_none v = (if v = PFloat NaN then PNone else v)"

fun of_raw :: "raw_cell \<Rightarrow> pyval" where
  "of_raw Missing = PFloat NaN"
| "of_raw (Text s) = PStr s"
| "of_raw (Integer i) = PInt i"
| "of_raw (Number r) = PFloat (Finite r)"

definition cell_at :: "raw_cell list \<Rightarrow> nat \<Rightarrow> raw_cell" where
  "cell_at cells j = (if j < length cells then cells ! j else Missing)"

text \<open>
  The substitution of \<^verbatim>\<open>\.0$\<close> by the empty text: \<open>$\<close> matches at the end of the
  text and before a line feed that ends it.
\<close>

definition sub_dot_zero :: "string \<Rightarrow> string" where
  "sub_dot_zero s =
     (if drop (length s - 2) s = ''.0'' then take (length s - 2) s
      else if drop (length s - 3) s = [CHR ''.'', CHR ''0'', CHR 0x0A]
           then take (length s - 3) s @ [CHR 0x0A]
      else s)"

text \<open>An identifier cell (line 255).\<close>

definition clean_id :: "env \<Rightarrow> pyval \<Rightarrow> pyval" where
  "clean_id e v =
     (let s = sub_dot_zero (py_str e v) in if s = ''None'' then PNone else PStr s)"

text \<open>The substitution of \<^verbatim>\<open>[^0-9,\.-]\<close> by the empty text (line 266).\<close>

definition keep_numeric_chars :: "string \<Rightarrow> string" where
  "keep_numeric_chars s =
     filter (\<lambda>c. is_digit c \<or> c = CHR '','' \<or> c = CHR ''.'' \<or> c = CHR ''-'') s"

text \<open>The replacement of every comma by a period (line 267).\<close>

definition comma_to_period :: "string \<Rightarrow> string" where
  "comma_to_period s = map (\<lambda>c. if c = CHR '','' then CHR ''.'' else c) s"

text \<open>
  \<^verbatim>\<open>pd.to_numeric(..., errors='coerce')\<close> on one text of digits, periods and minus
  signs, the alphabet the two substitutions leave: an optional sign, digits, an
  optional period followed by digits, at least one digit in all, and nothing after;
  any other text is coerced to NaN.
\<close>

definition to_numeric :: "string \<Rightarrow> pyfloat" where
  "to_numeric s =
     (let negative = (s \<noteq> [] \<and> hd s = CHR ''-'');
          p = (if negative then tl s else s);
          int_digits = takeWhile is_digit p;
          p1 = dropWhile is_digit p;
          has_point = (p1 \<noteq> [] \<and> hd p1 = CHR ''.'');
          frac_digits = (if has_point then takeWhile is_digit (tl p1) else []);
          rest = (if has_point then dropWhile is_digit (tl p1) else p1);
          number = (of_nat (nat_of_digits (int_digits @ frac_digits)) :: rat)
                     / 10 ^ length frac_digits
      in if int_digits @ frac_digits = [] \<or> rest \<noteq> [] then NaN
         else Finite (if negative then - number else number))"

text \<open>\<^verbatim>\<open>replace([np.inf, -np.inf], np.nan)\<close> on one number (line 271).\<close>

definition inf_to_nan :: "pyfloat \<Rightarrow> pyfloat" where
  "inf_to_nan x = (if x = PosInf \<or> x = NegInf then NaN else x)"

text \<open>A monetary cell (lines 263--271).\<close>

definition clean_value :: "env \<Rightarrow> pyval \<Rightarrow> pyval" where
  "clean_value e v =
     PFloat (inf_to_nan (to_numeric (comma_to_period (keep_numeric_chars (py_str e v)))))"

text \<open>\<^verbatim>\<open>list(dict.fromkeys(xs))\<close>: the first occurrence of each element, in order.\<close>

definition dict_fromkeys :: "'a list \<Rightarrow> 'a list" where
  "dict_fromkeys xs = rev (remdups (rev xs))"

definition final_columns :: "(string \<times> string) list \<Rightarrow> string list" where
  "final_columns column_mapping =
     foldl (\<lambda>cols extra. if extra \<notin> set cols then cols @ [extra] else cols)
       (dict_fromkeys (map snd column_mapping)) EXTRA_COLUMNS"

text \<open>The positions of a label among the renamed column labels.\<close>

definition positions :: "string list \<Rightarrow> string \<Rightarrow> nat list" where
  "positions labels c = filter (\<lambda>j. labels ! j = c) [0..<length labels]"

text \<open>
  The cell of row \<open>i\<close> in the final column \<open>c\<close>. A label that the file does not have is
  a column of \<open>None\<close>. A label held twice (a column and another one renamed to it)
  yields the last of the two in the record. \<open>original\<close> is the column after the
  first \<^verbatim>\<open>replace({np.nan: None})\<close>.
\<close>

definition clean_cell ::
  "env \<Rightarrow> raw_table \<Rightarrow> string list \<Rightarrow> string \<Rightarrow> nat \<Rightarrow> string \<Rightarrow> pyval" where
  "clean_cell e original_df labels layout_version i c =
     (if c = ''layout_version'' then PStr layout_version
      else
        (case positions labels c of
           [] \<Rightarrow> PNone
         | j # js \<Rightarrow>
             (let original =
                    map (\<lambda>cells. nan_to_none (of_raw (cell_at cells (last (j # js)))))
                      (body original_df)
              in nan_to_none
                   (if c \<in> set date_columns then
                      (case to_datetime_iso e original i of
                         None \<Rightarrow> PNone | Some text \<Rightarrow> PStr text)
                    else if c \<in> set id_columns then clean_id e (original ! i)
                    else if c \<in> set value_columns then clean_value e (original ! i)
                    else original ! i))))"

text \<open>
  The cleaning of the table read. The operations on the date, identifier and monetary
  columns raise when the label selects two columns.
\<close>

definition clean_table ::
  "env \<Rightarrow> raw_table \<Rightarrow> string option \<Rightarrow> error + (row list \<times> string)" where
  "clean_table e original_df layout_hint =
     (let columns_lower = set (map (\<lambda>col. lower (strip col)) (header original_df));
          layout_version = detect_layout columns_lower layout_hint;
          column_mapping = get_mapping_for_layout layout_version;
          labels = map (rename_column column_mapping) (header original_df)
      in if list_ex (\<lambda>c. 1 < length (positions labels c))
              (date_columns @ id_columns @ value_columns)
         then Inl FrameError
         else Inr (map (\<lambda>i. map_of (map (\<lambda>c. (c, clean_cell e original_df labels layout_version i c))
                                       (final_columns column_mapping)))
                     [0..<length (body original_df)],
                   layout_version))"

definition read_and_clean_data ::
  "env \<Rightarrow> source_file \<Rightarrow> string option \<Rightarrow> error + (row list \<times> string)" where
  "read_and_clean_data e file layout_hint =
     (case read_table file layout_hint of
        Inl err \<Rightarrow> Inl err
      | Inr original_df \<Rightarrow> clean_table e original_df layout_hint)"

text \<open>The values of one field over the records of a cleaned table.\<close>

definition field_values :: "string \<Rightarrow> error + (row list \<times> string) \<Rightarrow> pyval option list" where
  "field_values c result =
     (case result of Inl err \<Rightarrow> [] | Inr (df, layout_version) \<Rightarrow> map (\<lambda>rec. rec c) df)"

subsection \<open>Sanitising (lines 309--321)\<close>

text \<open>\<^verbatim>\<open>_sanitize_value\<close>: \<^verbatim>\<open>pd.isna\<close> holds of \<open>None\<close> and of NaN.\<close>

definition sanitize_value :: "pyval \<Rightarrow> pyval" where
  "sanitize_value v =
     (if v = PNone \<or> v = PFloat NaN then PNone
      else if v = PFloat PosInf \<or> v = PFloat NegInf then PNone
      else v)"

definition sanitize_record :: "row \<Rightarrow> row" where
  "sanitize_record d = (\<lambda>k. map_option sanitize_value (d k))"


subsection \<open>Identity and hash (lines 360--373)\<close>

text \<open>
  \<^verbatim>\<open>json.dumps(d, ensure_ascii=False, sort_keys=True, default=str)\<close> on a dict with
  text keys whose values are \<open>None\<close>, texts and numbers: the escapes of the JSON
  encoder for texts, \<^verbatim>\<open>repr\<close> for numbers, the items in the order of their keys,
  separated by a comma and a space.
\<close>

definition hex_digit :: "nat \<Rightarrow> char" where
  "hex_digit d = (if d < 10 then char_of (48 + d) else char_of (87 + d))"

definition json_escape_char :: "char \<Rightarrow> string" where
  "json_escape_char c =
     (if c = CHR 0x22 then [CHR 0x5C, CHR 0x22]
      else if c = CHR 0x5C then [CHR 0x5C, CHR 0x5C]
      else if c = CHR 0x0A then [CHR 0x5C, CHR ''n'']
      else if c = CHR 0x0D then [CHR 0x5C, CHR ''r'']
      else if c = CHR 0x09 then [CHR 0x5C, CHR ''t'']
      else if c = CHR 0x08 then [CHR 0x5C, CHR ''b'']
      else if c = CHR 0x0C then [CHR 0x5C, CHR ''f'']
      else if (of_char c :: nat) < 32
           then [CHR 0x5C, CHR ''u'', CHR ''0'', CHR ''0'',
                 hex_digit (of_char c div 16), hex_digit (of_char c mod 16)]
      else [c])"

definition json_string :: "string \<Rightarrow> string" where
  "json_string s = [CHR 0x22] @ concat (map json_escape_char s) @ [CHR 0x22]"

fun json_value :: "env \<Rightarrow> pyval \<Rightarrow> string" where
  "json_value e PNone = ''null''"
| "json_value e (PStr s) = json_string s"
| "json_value e (PInt i) = str_int i"
| "json_value e (PFloat (Finite r)) = float_str e r"
| "json_value e (PFloat NaN) = ''NaN''"
| "json_value e (PFloat PosInf) = ''Infinity''"
| "json_value e (PFloat NegInf) = ''-Infinity''"

fun join :: "string \<Rightarrow> string list \<Rightarrow> string" where
  "join sep [] = []"
| "join sep [x] = x"
| "join sep (x # y # ys) = x @ sep @ join sep (y # ys)"

definition json_item :: "env \<Rightarrow> string \<times> pyval \<Rightarrow> string" where
  "json_item e kv = json_string (fst kv) @ '': '' @ json_value e (snd kv)"

definition json_dumps :: "env \<Rightarrow> (string \<times> pyval) list \<Rightarrow> string" where
  "json_dumps e d = ''{'' @ join '', '' (map (json_item e) (sort_key fst d)) @ ''}''"

text \<open>
  The comprehension \<^verbatim>\<open>{k: sanitized.get(k) for k in NATURAL_KEY_COLUMNS if k in sanitized}\<close>.
\<close>

definition natural_items :: "row \<Rightarrow> (string \<times> pyval) list" where
  "natural_items sanitized =
     map (\<lambda>k. (k, get sanitized k)) (filter (\<lambda>k. sanitized k \<noteq> None) NATURAL_KEY_COLUMNS)"

text \<open>The text that is hashed into the id of the record at position \<open>idx\<close>.\<close>

definition base_payload :: "env \<Rightarrow> nat \<Rightarrow> row \<Rightarrow> string" where
  "base_payload e idx sanitized =
     json_dumps e (dict_set ''_row_index'' (PInt (int idx)) (natural_items sanitized))"

text \<open>
  One round of the loop of lines 360--373, on the record \<open>rec\<close> of the dataframe that
  has received the columns \<open>account_id\<close> and \<open>received_file_id\<close> (lines 352, 356).
\<close>

definition prepare_record :: "env \<Rightarrow> string \<Rightarrow> nat \<Rightarrow> row \<Rightarrow> row" where
  "prepare_record e account_id idx rec =
     (let sanitized = sanitize_record rec;
          deterministic_id = uuid5_url e (account_id @ ''|'' @ base_payload e idx sanitized);
          sanitized = sanitized(''id'' \<mapsto> PStr deterministic_id);
          natural_payload = json_dumps e (natural_items sanitized)
      in sanitized(''natural_hash'' \<mapsto> PStr (md5_hex e natural_payload)))"

definition records_to_insert :: "env \<Rightarrow> string \<Rightarrow> string \<Rightarrow> row list \<Rightarrow> row list" where
  "records_to_insert e account_id file_id df =
     map (\<lambda>(idx, rec).
            prepare_record e account_id idx
              (rec(''account_id'' \<mapsto> PStr account_id, ''received_file_id'' \<mapsto> PStr file_id)))
       (enumerate 0 df)"

text \<open>The loop of lines 375--387, with the set \<open>seen_ids\<close> as its state.\<close>

fun unique_records :: "pyval set \<Rightarrow> row list \<Rightarrow> row list" where
  "unique_records seen_ids [] = []"
| "unique_records seen_ids (rec # rest) =
     (let row_id = get rec ''id''
      in if \<not> truthy row_id then rec # unique_records seen_ids rest
         else if row_id \<in> seen_ids then unique_records seen_ids rest
         else rec # unique_records (insert row_id seen_ids) rest)"

subsection \<open>Periods (lines 394--423)\<close>

text \<open>The year-month key that one record contributes (lines 398--402), if any.\<close>

definition competence_key :: "row \<Rightarrow> string option" where
  "competence_key rec =
     (let comp_date = get rec ''competence_date''
      in if truthy comp_date
         then (case comp_date of
                 PStr s \<Rightarrow> if 7 \<le> length s then Some (take 7 s) else None
               | _ \<Rightarrow> None)
         else None)"

text \<open>\<^verbatim>\<open>sorted(competences_to_delete)\<close>.\<close>

definition competences_to_delete :: "row list \<Rightarrow> string list" where
  "competences_to_delete records = sort (remdups (List.map_filter competence_key records))"

text \<open>\<^verbatim>\<open>s.split(sep)\<close> for a separator of one character.\<close>

fun split :: "char \<Rightarrow> string \<Rightarrow> string list" where
  "split sep [] = [[]]"
| "split sep (c # cs) =
     (if c = sep then [] # split sep cs
      else (case split sep cs of [] \<Rightarrow> [[c]] | part # parts \<Rightarrow> (c # part) # parts))"

text \<open>
  \<^verbatim>\<open>int(s)\<close> on an ASCII text: white space around, an optional sign, digits with
  single underscores between them. \<open>None\<close> is the \<open>ValueError\<close>.
\<close>

fun int_digits_ok :: "string \<Rightarrow> bool" where
  "int_digits_ok [] = False"
| "int_digits_ok [c] = is_digit c"
| "int_digits_ok (c # d # cs) =
     (is_digit c \<and> (if d = CHR ''_'' then int_digits_ok cs else int_digits_ok (d # cs)))"

definition py_int :: "string \<Rightarrow> int option" where
  "py_int s =
     (let t = strip s;
          signed = (t \<noteq> [] \<and> (hd t = CHR ''-'' \<or> hd t = CHR ''+''));
          digits = (if signed then tl t else t);
          magnitude = int (nat_of_digits (filter (\<lambda>c. c \<noteq> CHR ''_'') digits))
      in if int_digits_ok digits
         then Some (if t \<noteq> [] \<and> hd t = CHR ''-'' then - magnitude else magnitude)
         else None)"

text \<open>\<^verbatim>\<open>date(year, month, 1)\<close> succeeds.\<close>

definition first_of_month_ok :: "int \<Rightarrow> int \<Rightarrow> bool" where
  "first_of_month_ok year month = (1 \<le> year \<and> year \<le> 9999 \<and> 1 \<le> month \<and> month \<le> 12)"

text \<open>\<^verbatim>\<open>date(year, month, day).isoformat()\<close>.\<close>

definition isoformat :: "int \<Rightarrow> int \<Rightarrow> int \<Rightarrow> string" where
  "isoformat year month day =
     zfill 4 (str_int year) @ ''-'' @ zfill 2 (str_int month) @ ''-'' @ zfill 2 (str_int day)"

text \<open>
  Lines 413--423: the bounds \<open>month_start\<close> and \<open>next_month_start\<close> of a key, in ISO
  form, or \<open>None\<close> when the inner \<^verbatim>\<open>try\<close> catches an exception and the key is skipped.
\<close>

definition month_bounds :: "string \<Rightarrow> (string \<times> string) option" where
  "month_bounds competence =
     (case map py_int (split CHR ''-'' competence) of
        [Some year, Some month] \<Rightarrow>
          if first_of_month_ok year month
          then (if month = 12
                then (if first_of_month_ok (year + 1) 1
                      then Some (isoformat year month 1, isoformat (year + 1) 1 1)
                      else None)
                else (if first_of_month_ok year (month + 1)
                      then Some (isoformat year month 1, isoformat year (month + 1) 1)
                      else None))
          else None
      | _ \<Rightarrow> None)"


subsection \<open>The store\<close>

text \<open>
  Modelled from the spec: the store and the status sink of section 6, an external
  service that the code reaches through its client (delete by equality filter with
  optional range filters, upsert-many keyed by a unique field with replace on conflict,
  partial update of the record keyed by the file identifier). The four requests that
  the code sends are the constructors of \<open>call\<close>.
\<close>

datatype call =
    DeleteFile string
  | DeletePeriod string string string
  | Upsert "row list"
  | UpdateFile row string

text \<open>
  The state of the store: the two tables, the outcomes of the requests to come
  (\<open>True\<close>: the request raises and changes nothing; an exhausted list: no more
  failures), and the requests received so far with their success, oldest first.
\<close>

record store =
  ifood_conciliation :: "row list"
  received_files :: "row list"
  faults :: "bool list"
  calls :: "(call \<times> bool) list"

text \<open>
  The range filter \<^verbatim>\<open>gte(lo).lt(hi)\<close> on \<open>competence_date\<close>, on the ISO text of the
  stored value; a null never matches.
\<close>

definition in_period :: "string \<Rightarrow> string \<Rightarrow> row \<Rightarrow> bool" where
  "in_period lo hi r =
     (case r ''competence_date'' of Some (PStr d) \<Rightarrow> lo \<le> d \<and> d < hi | _ \<Rightarrow> False)"

definition upsert_row :: "row list \<Rightarrow> row \<Rightarrow> row list" where
  "upsert_row table r = filter (\<lambda>old. old ''id'' \<noteq> r ''id'') table @ [r]"

fun apply_call :: "call \<Rightarrow> store \<Rightarrow> store" where
  "apply_call (DeleteFile file_id) st =
     st\<lparr>ifood_conciliation :=
          filter (\<lambda>r. r ''received_file_id'' \<noteq> Some (PStr file_id)) (ifood_conciliation st)\<rparr>"
| "apply_call (DeletePeriod account_id lo hi) st =
     st\<lparr>ifood_conciliation :=
          filter (\<lambda>r. \<not> (r ''account_id'' = Some (PStr account_id) \<and> in_period lo hi r))
            (ifood_conciliation st)\<rparr>"
| "apply_call (Upsert batch) st =
     st\<lparr>ifood_conciliation := foldl upsert_row (ifood_conciliation st) batch\<rparr>"
| "apply_call (UpdateFile update_data file_id) st =
     st\<lparr>received_files :=
          map (\<lambda>r. if r ''id'' = Some (PStr file_id) then r ++ update_data else r)
            (received_files st)\<rparr>"

text \<open>One request: \<open>False\<close> when it raises.\<close>

definition execute :: "call \<Rightarrow> store \<Rightarrow> bool \<times> store" where
  "execute c st =
     (let failed = (case faults st of [] \<Rightarrow> False | f # fs \<Rightarrow> f);
          st' = st\<lparr>faults := tl (faults st), calls := calls st @ [(c, \<not> failed)]\<rparr>
      in if failed then (False, st') else (True, apply_call c st'))"

subsection \<open>Status reporter (lines 128--166)\<close>

text \<open>\<^verbatim>\<open>details.splitlines()[0]\<close> of a non-empty ASCII text.\<close>

definition is_linebreak :: "char \<Rightarrow> bool" where
  "is_linebreak c = (of_char c \<in> {10, 11, 12, 13, 28, 29, 30 :: nat})"

definition first_line :: "string \<Rightarrow> string" where
  "first_line s = takeWhile (\<lambda>c. \<not> is_linebreak c) s"

definition update_data :: "env \<Rightarrow> string \<Rightarrow> string option \<Rightarrow> row" where
  "update_data e status details =
     (if status = ''pending'' \<or> status = ''processing'' then
        [''status'' \<mapsto> PStr status, ''processed_at'' \<mapsto> PNone,
         ''error_message'' \<mapsto> PNone, ''error_details'' \<mapsto> PNone]
      else if status = ''processed'' then
        [''status'' \<mapsto> PStr status, ''processed_at'' \<mapsto> PStr (now_utc e),
         ''error_message'' \<mapsto> PNone, ''error_details'' \<mapsto> PNone]
      else if status = ''error'' then
        [''status'' \<mapsto> PStr status, ''processed_at'' \<mapsto> PNone,
         ''error_message'' \<mapsto>
            (case details of
               None \<Rightarrow> PNone
             | Some d \<Rightarrow> if d = [] then PNone else PStr (take 250 (first_line d))),
         ''error_details'' \<mapsto> (case details of None \<Rightarrow> PNone | Some d \<Rightarrow> PStr d)]
      else [''status'' \<mapsto> PStr status])"

text \<open>The request may raise; the exception is logged and swallowed.\<close>

definition update_file_status :: "env \<Rightarrow> string \<Rightarrow> string \<Rightarrow> string option \<Rightarrow> store \<Rightarrow> store" where
  "update_file_status e file_id status details st =
     snd (execute (UpdateFile (update_data e status details) file_id) st)"

subsection \<open>Persister (lines 333--452)\<close>

text \<open>Lines 337--349: the file-scoped deletion, whose exception is swallowed.\<close>

definition delete_file_records :: "string \<Rightarrow> store \<Rightarrow> store" where
  "delete_file_records file_id st = snd (execute (DeleteFile file_id) st)"

text \<open>
  Lines 410--436: one round for each key; an invalid key is skipped, an exception of
  the request is swallowed.
\<close>

fun delete_competences :: "string \<Rightarrow> string list \<Rightarrow> store \<Rightarrow> store" where
  "delete_competences account_id [] st = st"
| "delete_competences account_id (competence # rest) st =
     (case month_bounds competence of
        None \<Rightarrow> delete_competences account_id rest st
      | Some (month_start, next_month_start) \<Rightarrow>
          delete_competences account_id rest
            (snd (execute (DeletePeriod account_id month_start next_month_start) st)))"

text \<open>Lines 394--404: the guards around the period-scoped deletion.\<close>

definition delete_periods :: "string \<Rightarrow> row list \<Rightarrow> store \<Rightarrow> store" where
  "delete_periods account_id records st =
     (if records \<noteq> [] \<and> competences_to_delete records \<noteq> []
      then delete_competences account_id (competences_to_delete records) st
      else st)"

text \<open>
  The batches of lines 438--441: \<^verbatim>\<open>records[start:start + batch_size]\<close> for
  \<open>start\<close> in \<^verbatim>\<open>range(0, len(records), batch_size)\<close>.
\<close>

definition batches :: "nat \<Rightarrow> 'a list \<Rightarrow> 'a list list" where
  "batches batch_size records =
     map (\<lambda>start. take batch_size (drop start records))
       (filter (\<lambda>start. start mod batch_size = 0) [0..<length records])"

text \<open>Lines 440--451: the first batch whose upsert raises ends the loop.\<close>

fun upsert_batches :: "row list list \<Rightarrow> store \<Rightarrow> error option \<times> store" where
  "upsert_batches [] st = (None, st)"
| "upsert_batches (batch # rest) st =
     (case execute (Upsert batch) st of
        (False, st') \<Rightarrow> (Some StoreError, st')
      | (True, st') \<Rightarrow> upsert_batches rest st')"

text \<open>
  \<^verbatim>\<open>save_data_in_batches\<close>: the exception that leaves the function, if any, and
  the store.
\<close>

definition save_data_in_batches ::
  "env \<Rightarrow> row list \<Rightarrow> string \<Rightarrow> string \<Rightarrow> store \<Rightarrow> error option \<times> store" where
  "save_data_in_batches e df account_id file_id st =
     (let st1 = delete_file_records file_id st;
          unique = unique_records {} (records_to_insert e account_id file_id df);
          st2 = delete_periods account_id unique st1
      in upsert_batches (batches 100 unique) st2)"

subsection \<open>Orchestrator (lines 454--481)\<close>

definition empty_message :: string where
  "empty_message =
     ''O arquivo Excel est'' @ [CHR 0xC3, CHR 0xA1] @ '' vazio ou n'' @ [CHR 0xC3, CHR 0xA3]
       @ ''o cont'' @ [CHR 0xC3, CHR 0xA9] @ ''m dados na segunda aba.''"

text \<open>The details that the handler of line 471 builds.\<close>

definition fatal_details :: "env \<Rightarrow> error \<Rightarrow> string" where
  "fatal_details e err =
     ''Erro fatal no processamento: '' @ str_exc e err @ [CHR 0x0A, CHR 0x0A]
       @ ''Traceback:'' @ [CHR 0x0A] @ format_exc e err"

definition process_conciliation_file ::
  "env \<Rightarrow> source_file \<Rightarrow> string \<Rightarrow> string \<Rightarrow> string option \<Rightarrow> store \<Rightarrow> store" where
  "process_conciliation_file e file file_id account_id layout_hint st =
     (let st1 = update_file_status e file_id ''processing'' None st
      in case read_and_clean_data e file layout_hint of
           Inl err \<Rightarrow> update_file_status e file_id ''error'' (Some (fatal_details e err)) st1
         | Inr (df, layout_version) \<Rightarrow>
             if df \<noteq> [] then
               (case save_data_in_batches e df account_id file_id st1 of
                  (Some err, st2) \<Rightarrow>
                    update_file_status e file_id ''error'' (Some (fatal_details e err)) st2
                | (None, st2) \<Rightarrow> update_file_status e file_id ''processed'' None st2)
             else update_file_status e file_id ''error'' (Some empty_message) st1)"

text \<open>The status values written to the file's record, in the order of the requests.\<close>

fun status_writes :: "string \<Rightarrow> (call \<times> bool) list \<Rightarrow> pyval list" where
  "status_writes file_id [] = []"
| "status_writes file_id ((UpdateFile data fid, ok) # cs) =
     (if fid = file_id then get data ''status'' # status_writes file_id cs
      else status_writes file_id cs)"
| "status_writes file_id (_ # cs) = status_writes file_id cs"

subsection \<open>Notions used in the properties\<close>

text \<open>A value that JSON cannot hold: NaN or an infinity.\<close>

definition non_finite :: "pyval \<Rightarrow> bool" where
  "non_finite v = (v = PFloat NaN \<or> v = PFloat PosInf \<or> v = PFloat NegInf)"

text \<open>The canonical fields: the final columns, the same list for both layouts.\<close>

definition canonical_fields :: "string list" where
  "canonical_fields = final_columns COLUMNS_MAPPING_LEGACY"

text \<open>The requests that the store has received between two of its states.\<close>

definition new_calls :: "store \<Rightarrow> store \<Rightarrow> (call \<times> bool) list" where
  "new_calls st st' = drop (length (calls st)) (calls st')"

text \<open>The records of the upsert requests among some requests, in order.\<close>

fun upserted :: "call list \<Rightarrow> row list" where
  "upserted [] = []"
| "upserted (Upsert batch # cs) = batch @ upserted cs"
| "upserted (_ # cs) = upserted cs"

text \<open>The bounds of the keys that are valid, in the order of the keys.\<close>

definition valid_bounds :: "string list \<Rightarrow> (string \<times> string) list" where
  "valid_bounds competences = List.map_filter month_bounds competences"


text \<open>
  The names that are hashed into the ids of the records of a dataframe: the account,
  a bar, and the payload of the record at its position.
\<close>

definition id_names :: "env \<Rightarrow> string \<Rightarrow> row list \<Rightarrow> string list" where
  "id_names e account_id df =
     map (\<lambda>(idx, rec). account_id @ ''|'' @ base_payload e idx (sanitize_record rec))
       (enumerate 0 df)"


text \<open>
  A stored row that a period-scoped deletion with the given bounds selects: it belongs
  to the account and its \<open>competence_date\<close> lies in one of the half-open intervals.
\<close>

definition targeted :: "string \<Rightarrow> (string \<times> string) list \<Rightarrow> row \<Rightarrow> bool" where
  "targeted account_id bounds r =
     (r ''account_id'' = Some (PStr account_id) \<and>
      list_ex (\<lambda>(lo, hi). in_period lo hi r) bounds)"

text \<open>Whether the next request to the store raises.\<close>

definition next_fails :: "store \<Rightarrow> bool" where
  "next_fails st = (case faults st of [] \<Rightarrow> False | f # fs \<Rightarrow> f)"


text \<open>The environment and the inputs of the examples.\<close>

definition sample_env :: env where
  "sample_env =
     \<lparr>float_str = (\<lambda>r. ''1.5''),
      to_datetime_iso =
        (\<lambda>column i. if i < length column
                     then (case column ! i of PStr s \<Rightarrow> Some (s @ ''T00:00:00'') | _ \<Rightarrow> None)
                     else None),
      uuid5_url = (\<lambda>name. name),
      md5_hex = (\<lambda>payload. payload),
      now_utc = ''2024-07-01T12:00:00+00:00'',
      str_exc = (\<lambda>err. ''exception''),
      format_exc = (\<lambda>err. ''traceback'')\<rparr>"

definition scenario_table :: raw_table where
  "scenario_table =
     \<lparr>header = [''competencia'', ''valor'', ''loja_id''],
      body = [[Text ''2024-06-01'', Text ''1.234,56'', Text ''10.0''],
              [Text ''2024-06-01'', Text ''1.234,56'', Text ''10.0'']]\<rparr>"


definition stored_row :: "string \<Rightarrow> string \<Rightarrow> string \<Rightarrow> row" where
  "stored_row row_id account_id competence_date =
     [''id'' \<mapsto> PStr row_id, ''account_id'' \<mapsto> PStr account_id,
      ''competence_date'' \<mapsto> PStr competence_date]"

definition example_store :: store where
  "example_store =
     \<lparr>ifood_conciliation =
        [stored_row ''a'' ''acc'' ''2024-05-31T00:00:00'',
         stored_row ''b'' ''acc'' ''2024-06-01T00:00:00'',
         stored_row ''c'' ''acc'' ''2024-06-30T00:00:00'',
         stored_row ''d'' ''acc'' ''2024-07-01T00:00:00'',
         stored_row ''e'' ''other'' ''2024-06-15T00:00:00''],
      received_files = [[''id'' \<mapsto> PStr ''file-1'', ''status'' \<mapsto> PStr ''pending'']],
      faults = [],
      calls = []\<rparr>"

definition june_records :: "row list" where
  "june_records = [[''competence_date'' \<mapsto> PStr ''2024-06-01T00:00:00'']]"


section \<open>Properties\<close>

lemma normalize_layout_hint_literals:
  "normalize_layout_hint (Some ''legacy'') = Some ''legacy''"
  "normalize_layout_hint (Some ''v3'') = Some ''v3''"
  by (simp_all add: normalize_layout_hint_def strip_def lower_def lower_char_def is_space_def)

lemma normalize_layout_hint_None: "normalize_layout_hint None = None"
  by (simp add: normalize_layout_hint_def)

lemma normalize_layout_hint_cases:
  "normalize_layout_hint h = None \<or> normalize_layout_hint h = Some ''legacy''
     \<or> normalize_layout_hint h = Some ''v3''"
  by (auto simp: normalize_layout_hint_def Let_def split: option.splits)



text \<open>
  Claim C8, as stated: with the hint \<open>legacy\<close> the second worksheet is returned. It
  fails on a workbook with a single worksheet, where the guard
  \<^verbatim>\<open>len(sheet_names) > 1\<close> sends the call to the first worksheet.
\<close>

theorem select_sheet_name_legacy_counterexample:
  "select_sheet_name [''Resumo''] (Some ''legacy'') = Inr ''Resumo'' \<and>
   \<not> 1 < length [''Resumo'']"
  by (simp add: select_sheet_name_def normalize_layout_hint_literals)

text \<open>
  Claim C8, amended. An empty worksheet list raises \<open>ValueError\<close>. On a non-empty
  list the second worksheet is returned when more than one worksheet exists and the
  normalised hint is not \<open>v3\<close> (hint \<open>legacy\<close>, or no recognised hint); the first
  worksheet is returned otherwise: with the hint \<open>v3\<close>, and whenever the workbook has
  a single worksheet, also under the hint \<open>legacy\<close>.
\<close>

theorem select_sheet_name_amended:
  "select_sheet_name [] hint = Inl ValueError \<and>
   (sheet_names \<noteq> [] \<longrightarrow>
      (let i = (if normalize_layout_hint hint \<noteq> Some ''v3'' \<and> 1 < length sheet_names
                then 1 else 0 :: nat)
       in i < length sheet_names \<and>
          select_sheet_name sheet_names hint = Inr (sheet_names ! i)))"
proof -
  have e: "select_sheet_name [] hint = Inl ValueError"
    by (simp add: select_sheet_name_def)
  have n: "sheet_names \<noteq> [] \<longrightarrow>
      (let i = (if normalize_layout_hint hint \<noteq> Some ''v3'' \<and> 1 < length sheet_names
                then 1 else 0 :: nat)
       in i < length sheet_names \<and>
          select_sheet_name sheet_names hint = Inr (sheet_names ! i))"
  proof (cases sheet_names)
    case Nil
    then show ?thesis by simp
  next
    case (Cons first others)
    then show ?thesis
      using normalize_layout_hint_cases [of hint]
      by (cases others) (auto simp: select_sheet_name_def Let_def)
  qed
  show ?thesis using e n by simp
qed

theorem select_sheet_name_amended_witness:
  "select_sheet_name [''Resumo'', ''Dados''] (Some ''legacy'') = Inr ''Dados'' \<and>
   select_sheet_name [''Resumo'', ''Dados''] (Some ''v3'') = Inr ''Resumo'' \<and>
   select_sheet_name [''Resumo'', ''Dados''] None = Inr ''Dados'' \<and>
   select_sheet_name [''Resumo''] None = Inr ''Resumo''"
  using select_sheet_name_amended [of "Some ''legacy''" "[''Resumo'', ''Dados'']"]
    select_sheet_name_amended [of "Some ''v3''" "[''Resumo'', ''Dados'']"]
    select_sheet_name_amended [of None "[''Resumo'', ''Dados'']"]
    select_sheet_name_amended [of None "[''Resumo'']"]
  by (simp add: normalize_layout_hint_literals normalize_layout_hint_None)

lemma final_columns_LEGACY:
  "final_columns COLUMNS_MAPPING_LEGACY = [''competence_date'', ''event_date'', ''event_trigger'',
  ''transaction_type'', ''transaction_description'', ''gross_value'',
  ''calculation_base_value'', ''tax_percentage'', ''ifood_order_id'',
  ''ifood_order_id_short'', ''external_order_id'', ''cancellation_reason'',
  ''occurrence_description'', ''order_creation_date'',
  ''expected_payment_date'', ''transaction_value'', ''store_id'',
  ''store_id_short'', ''store_id_external'', ''cnpj'', ''title'',
  ''billing_date'', ''settlement_start_date'', ''settlement_end_date'',
  ''initial_basket_value'', ''final_basket_value'',
  ''transaction_responsible'', ''sales_channel'', ''payment_impact'',
  ''payment_installment'', ''order_details'', ''payment_method'',
  ''payment_brand'', ''balance_id'', ''layout_version'']"
  by code_simp

lemma final_columns_V3: "final_columns COLUMNS_MAPPING_V3 = final_columns COLUMNS_MAPPING_LEGACY"
  by code_simp

lemma final_columns_layout: "final_columns (get_mapping_for_layout lv) = canonical_fields"
  by (simp add: get_mapping_for_layout_def canonical_fields_def final_columns_V3)

lemma map_of_graph:
  "map_of (map (\<lambda>c. (c, f c)) cs) k = (if k \<in> set cs then Some (f k) else None)"
  by (induction cs) auto

lemma clean_table_Inr:
  assumes "clean_table e t h = Inr (df, lv)"
  shows "lv = detect_layout (set (map (\<lambda>col. lower (strip col)) (header t))) h"
    and "df = map (\<lambda>i c. if c \<in> set canonical_fields
                 then Some (clean_cell e t (map (rename_column (get_mapping_for_layout lv)) (header t)) lv i c)
                 else None) [0..<length (body t)]"
  using assms
  by (auto simp: clean_table_def Let_def final_columns_layout map_of_graph fun_eq_iff
      split: if_splits)

lemma clean_id_cases: "clean_id e v = PNone \<or> (\<exists>s. clean_id e v = PStr s)"
  by (simp add: clean_id_def Let_def)

lemma to_numeric_cases: "to_numeric s = NaN \<or> (\<exists>r. to_numeric s = Finite r)"
  by (simp add: to_numeric_def Let_def)

lemma clean_value_cases: "clean_value e v = PFloat NaN \<or> (\<exists>r. clean_value e v = PFloat (Finite r))"
  using to_numeric_cases [of "comma_to_period (keep_numeric_chars (py_str e v))"]
  by (auto simp: clean_value_def inf_to_nan_def)

lemma of_raw_finite: "\<not> non_finite (nan_to_none (of_raw c))"
  by (cases c) (simp_all add: non_finite_def nan_to_none_def)

lemma cleaned_value_finite:
  assumes "\<not> non_finite x"
  shows "\<not> non_finite
           (nan_to_none
              (if A then (case d of None \<Rightarrow> PNone | Some text \<Rightarrow> PStr text)
               else if B then clean_id e x
               else if C then clean_value e x
               else x))"
  using assms clean_id_cases [of e x] clean_value_cases [of e x]
  by (auto simp: nan_to_none_def non_finite_def split: option.splits)

lemma clean_cell_finite:
  assumes "i < length (body t)"
  shows "\<not> non_finite (clean_cell e t labels lv i c)"
proof (cases "c = ''layout_version''")
  case True
  then show ?thesis by (simp add: clean_cell_def non_finite_def)
next
  case False
  show ?thesis
  proof (cases "positions labels c")
    case Nil
    with False show ?thesis by (simp add: clean_cell_def non_finite_def)
  next
    case (Cons j js)
    define original where
      "original = map (\<lambda>cells. nan_to_none (of_raw (cell_at cells (last (j # js))))) (body t)"
    have o: "\<not> non_finite (original ! i)"
      using assms by (simp add: original_def of_raw_finite del: last.simps)
    have "clean_cell e t labels lv i c =
        nan_to_none
          (if c \<in> set date_columns
           then (case to_datetime_iso e original i of None \<Rightarrow> PNone | Some text \<Rightarrow> PStr text)
           else if c \<in> set id_columns then clean_id e (original ! i)
           else if c \<in> set value_columns then clean_value e (original ! i)
           else original ! i)"
      using False Cons by (simp add: clean_cell_def Let_def original_def del: last.simps nth_map)
    then show ?thesis using cleaned_value_finite [OF o] by simp
  qed
qed

lemma clean_table_record:
  assumes "clean_table e t h = Inr (df, lv)" and "r \<in> set df"
  shows "(\<forall>c. r c \<noteq> None \<longleftrightarrow> c \<in> set canonical_fields) \<and>
         (\<forall>c v. r c = Some v \<longrightarrow> \<not> non_finite v)"
proof -
  from clean_table_Inr(2) [OF assms(1)] assms(2)
  obtain i where i: "i < length (body t)"
    and r: "r = (\<lambda>c. if c \<in> set canonical_fields
                 then Some (clean_cell e t (map (rename_column (get_mapping_for_layout lv)) (header t)) lv i c)
                 else None)"
    by auto
  show ?thesis using clean_cell_finite [OF i] by (auto simp: r)
qed

lemma field_values_clean_table:
  assumes "detect_layout (set (map (\<lambda>col. lower (strip col)) (header t))) h = lv"
    and "map (rename_column (get_mapping_for_layout lv)) (header t) = labels"
    and "\<not> list_ex (\<lambda>c. 1 < length (positions labels c))
              (date_columns @ id_columns @ value_columns)"
    and "c \<in> set canonical_fields"
  shows "field_values c (clean_table e t h) =
           map (\<lambda>i. Some (clean_cell e t labels lv i c)) [0..<length (body t)]"
  using assms
  by (simp add: clean_table_def Let_def field_values_def final_columns_layout map_of_graph)

lemma scenario_layout:
  "detect_layout (set (map (\<lambda>col. lower (strip col)) (header scenario_table))) None = ''legacy''"
  by (simp add: scenario_table_def detect_layout_def normalize_layout_hint_None V3_MARKERS_def
      lower_def strip_def lower_char_def is_space_def)

lemma scenario_labels:
  "map (rename_column (get_mapping_for_layout ''legacy'')) (header scenario_table) =
     [''competence_date'', ''gross_value'', ''store_id'']"
  by (simp add: scenario_table_def get_mapping_for_layout_def rename_column_def
      COLUMNS_MAPPING_LEGACY_def)

lemma scenario_no_duplicates:
  "\<not> list_ex (\<lambda>c. 1 < length (positions [''competence_date'', ''gross_value'', ''store_id''] c))
       (date_columns @ id_columns @ value_columns)"
  by (simp add: positions_def date_columns_def id_columns_def value_columns_def upt_rec)

lemma scenario_field:
  assumes "c \<in> set canonical_fields"
  shows "field_values c (clean_table e scenario_table None) =
     map (\<lambda>i. Some (clean_cell e scenario_table
                      [''competence_date'', ''gross_value'', ''store_id''] ''legacy'' i c))
       [0, 1]"
proof -
  have "[0..<length (body scenario_table)] = [0, 1]"
    by (simp add: scenario_table_def upt_rec)
  then show ?thesis
    using field_values_clean_table [OF scenario_layout scenario_labels scenario_no_duplicates assms]
    by simp
qed

lemma positions_gross: "positions [''competence_date'', ''gross_value'', ''store_id''] ''gross_value'' = [1]"
  by (simp add: positions_def upt_rec)

lemma positions_store: "positions [''competence_date'', ''gross_value'', ''store_id''] ''store_id'' = [2]"
  by (simp add: positions_def upt_rec)

lemma clean_value_thousands: "clean_value e (PStr ''1.234,56'') = PFloat NaN"
  by (simp add: clean_value_def keep_numeric_chars_def comma_to_period_def to_numeric_def
      is_digit_def inf_to_nan_def Let_def)

lemma clean_id_dot_zero: "clean_id e (PStr ''10.0'') = PStr ''10''"
  by (simp add: clean_id_def sub_dot_zero_def)

lemma scenario_gross_value:
  "field_values ''gross_value'' (clean_table e scenario_table None) = [Some PNone, Some PNone]"
proof -
  have c: "''gross_value'' \<in> set canonical_fields"
    by (simp add: canonical_fields_def final_columns_LEGACY)
  have "clean_cell e scenario_table [''competence_date'', ''gross_value'', ''store_id'']
          ''legacy'' i ''gross_value'' = PNone" if "i = 0 \<or> i = 1" for i
    using that
    by (auto simp: clean_cell_def positions_gross scenario_table_def cell_at_def
        date_columns_def id_columns_def value_columns_def clean_value_thousands nan_to_none_def)
  then show ?thesis using scenario_field [OF c, of e] by simp
qed

lemma scenario_store_id:
  "field_values ''store_id'' (clean_table e scenario_table None) =
     [Some (PStr ''10''), Some (PStr ''10'')]"
proof -
  have c: "''store_id'' \<in> set canonical_fields"
    by (simp add: canonical_fields_def final_columns_LEGACY)
  have "clean_cell e scenario_table [''competence_date'', ''gross_value'', ''store_id'']
          ''legacy'' i ''store_id'' = PStr ''10''" if "i = 0 \<or> i = 1" for i
    using that
    by (auto simp: clean_cell_def positions_store scenario_table_def cell_at_def
        date_columns_def id_columns_def value_columns_def clean_id_dot_zero nan_to_none_def)
  then show ?thesis using scenario_field [OF c, of e] by simp
qed

text \<open>
  Claim C1, as stated: the monetary cell \<open>1.234,56\<close> cleans to the number 1234.56. On
  the scenario of the specification (a legacy CSV with the columns \<open>competencia\<close>,
  \<open>valor\<close>, \<open>loja_id\<close> and two equal rows) the field \<open>gross_value\<close> of both records
  is null: the period of the thousands is kept, the comma becomes a second period and
  the text \<open>1.234.56\<close> is not a number.
\<close>

theorem field_cleaner_thousands_counterexample:
  "field_values ''gross_value'' (clean_table sample_env scenario_table None)
     = [Some PNone, Some PNone] \<and>
   clean_value sample_env (PStr ''1.234,56'') \<noteq> PFloat (Finite 1234.56)"
  using scenario_gross_value [of sample_env] clean_value_thousands [of sample_env]
  by simp

text \<open>
  Claim C1, amended. The monetary cell \<open>1.234,56\<close> becomes the text \<open>1.234.56\<close>, which
  is coerced to NaN and leaves the cleaning stage as null; a monetary cell without a
  thousands separator, \<open>1234,56\<close>, cleans to the number 1234.56; the identifier cell
  \<open>10.0\<close> cleans to the text \<open>10\<close>. On the scenario table the records hold null in
  \<open>gross_value\<close> and \<open>10\<close> in \<open>store_id\<close>.
\<close>

theorem field_cleaner_examples:
  "comma_to_period (keep_numeric_chars ''1.234,56'') = ''1.234.56'' \<and>
   clean_value e (PStr ''1.234,56'') = PFloat NaN \<and>
   nan_to_none (clean_value e (PStr ''1.234,56'')) = PNone \<and>
   clean_value e (PStr ''1234,56'') = PFloat (Finite 1234.56) \<and>
   clean_id e (PStr ''10.0'') = PStr ''10'' \<and>
   field_values ''gross_value'' (clean_table e scenario_table None)
     = [Some PNone, Some PNone] \<and>
   field_values ''store_id'' (clean_table e scenario_table None)
     = [Some (PStr ''10''), Some (PStr ''10'')]"
proof -
  have a: "comma_to_period (keep_numeric_chars ''1.234,56'') = ''1.234.56''"
    by (simp add: keep_numeric_chars_def comma_to_period_def is_digit_def)
  have b: "nan_to_none (clean_value e (PStr ''1.234,56'')) = PNone"
    by (simp add: clean_value_thousands nan_to_none_def)
  have c: "clean_value e (PStr ''1234,56'') = PFloat (Finite 1234.56)"
    by (simp add: clean_value_def keep_numeric_chars_def comma_to_period_def to_numeric_def
        is_digit_def inf_to_nan_def Let_def nat_of_digits_def digit_val_def)
  show ?thesis
    using a b c clean_value_thousands [of e] clean_id_dot_zero [of e]
      scenario_gross_value [of e] scenario_store_id [of e]
    by simp
qed

theorem field_cleaner_examples_witness:
  "clean_value sample_env (PStr ''1.234,56'') = PFloat NaN \<and>
   clean_value sample_env (PStr ''1234,56'') = PFloat (Finite 1234.56) \<and>
   clean_id sample_env (PStr ''10.0'') = PStr ''10'' \<and>
   field_values ''store_id'' (clean_table sample_env scenario_table None)
     = [Some (PStr ''10''), Some (PStr ''10'')]"
  using field_cleaner_examples [of sample_env] by simp

lemma natural_items_cong:
  assumes "\<forall>k \<in> set NATURAL_KEY_COLUMNS. r k = r' k"
  shows "natural_items r = natural_items r'"
proof -
  have "filter (\<lambda>k. r k \<noteq> None) NATURAL_KEY_COLUMNS = filter (\<lambda>k. r' k \<noteq> None) NATURAL_KEY_COLUMNS"
    using assms by (intro filter_cong) auto
  moreover have "\<forall>k \<in> set NATURAL_KEY_COLUMNS. get r k = get r' k"
    using assms by (simp add: get_def)
  ultimately show ?thesis by (simp add: natural_items_def)
qed

lemma natural_keys_list:
  "NATURAL_KEY_COLUMNS =
     [''competence_date'', ''event_date'', ''transaction_type'',
      ''transaction_description'', ''gross_value'', ''transaction_value'',
      ''ifood_order_id'', ''external_order_id'', ''store_id'', ''title'',
      ''billing_date'', ''settlement_start_date'', ''settlement_end_date'',
      ''payment_installment'', ''balance_id'']"
  by (simp add: NATURAL_KEY_COLUMNS_def)

lemma not_natural_key:
  "''id'' \<notin> set NATURAL_KEY_COLUMNS" "''natural_hash'' \<notin> set NATURAL_KEY_COLUMNS"
  "''account_id'' \<notin> set NATURAL_KEY_COLUMNS" "''received_file_id'' \<notin> set NATURAL_KEY_COLUMNS"
  "''_row_index'' \<notin> set NATURAL_KEY_COLUMNS"
  by (simp_all add: natural_keys_list)

lemma natural_items_upd:
  "k \<notin> set NATURAL_KEY_COLUMNS \<Longrightarrow> natural_items (r(k \<mapsto> v)) = natural_items r"
  by (rule natural_items_cong) auto

lemma sanitize_record_upd:
  "sanitize_record (r(k \<mapsto> v)) = (sanitize_record r)(k \<mapsto> sanitize_value v)"
  by (auto simp: sanitize_record_def fun_eq_iff)

lemma natural_items_sanitize_cong:
  assumes "\<forall>k \<in> set NATURAL_KEY_COLUMNS. r k = r' k"
  shows "natural_items (sanitize_record r) = natural_items (sanitize_record r')"
  using assms by (intro natural_items_cong) (simp add: sanitize_record_def)

lemma prepare_record_id:
  "prepare_record e account_id idx rec ''id'' =
     Some (PStr (uuid5_url e (account_id @ ''|'' @ base_payload e idx (sanitize_record rec))))"
  by (simp add: prepare_record_def Let_def)

lemma prepare_record_natural_hash:
  "prepare_record e account_id idx rec ''natural_hash'' =
     Some (PStr (md5_hex e (json_dumps e (natural_items (sanitize_record rec)))))"
  by (simp add: prepare_record_def Let_def natural_items_upd not_natural_key)

lemma prepare_record_other:
  "k \<noteq> ''id'' \<Longrightarrow> k \<noteq> ''natural_hash'' \<Longrightarrow>
   prepare_record e account_id idx rec k = sanitize_record rec k"
  by (simp add: prepare_record_def Let_def)

lemma base_payload_cong:
  assumes "\<forall>k \<in> set NATURAL_KEY_COLUMNS. r k = r' k"
  shows "base_payload e idx (sanitize_record r) = base_payload e idx (sanitize_record r')"
  using natural_items_sanitize_cong [OF assms] by (simp add: base_payload_def)

lemma base_payload_upd:
  "k \<notin> set NATURAL_KEY_COLUMNS \<Longrightarrow>
   base_payload e idx (sanitize_record (r(k \<mapsto> v))) = base_payload e idx (sanitize_record r)"
  by (rule base_payload_cong) auto

lemma length_records_to_insert [simp]:
  "length (records_to_insert e account_id file_id df) = length df"
  by (simp add: records_to_insert_def)

lemma records_to_insert_nth:
  assumes "i < length df"
  shows "records_to_insert e account_id file_id df ! i =
     prepare_record e account_id i
       ((df ! i)(''account_id'' \<mapsto> PStr account_id, ''received_file_id'' \<mapsto> PStr file_id))"
  using assms by (simp add: records_to_insert_def nth_enumerate_eq)

lemma length_id_names [simp]: "length (id_names e account_id df) = length df"
  by (simp add: id_names_def)

lemma id_names_nth:
  "i < length df \<Longrightarrow>
   id_names e account_id df ! i = account_id @ ''|'' @ base_payload e i (sanitize_record (df ! i))"
  by (simp add: id_names_def nth_enumerate_eq)

lemma record_id:
  assumes "i < length df"
  shows "(records_to_insert e account_id file_id df ! i) ''id'' =
     Some (PStr (uuid5_url e (id_names e account_id df ! i)))"
  using assms
  by (simp add: records_to_insert_nth prepare_record_id id_names_nth base_payload_upd
      not_natural_key)

lemma record_natural_hash:
  assumes "i < length df"
  shows "(records_to_insert e account_id file_id df ! i) ''natural_hash'' =
     Some (PStr (md5_hex e (json_dumps e (natural_items (sanitize_record (df ! i))))))"
proof -
  have "natural_items (sanitize_record
          ((df ! i)(''account_id'' \<mapsto> PStr account_id, ''received_file_id'' \<mapsto> PStr file_id)))
        = natural_items (sanitize_record (df ! i))"
    by (rule natural_items_sanitize_cong) (auto simp: not_natural_key)
  then show ?thesis
    using assms by (simp add: records_to_insert_nth prepare_record_natural_hash)
qed

lemma id_names_cong:
  assumes "length df = length df'"
    and "\<forall>i < length df. \<forall>k \<in> set NATURAL_KEY_COLUMNS. (df ! i) k = (df' ! i) k"
  shows "id_names e account_id df = id_names e account_id df'"
proof (rule nth_equalityI)
  show "length (id_names e account_id df) = length (id_names e account_id df')"
    using assms(1) by simp
next
  fix i assume "i < length (id_names e account_id df)"
  then have i: "i < length df" by simp
  then have "base_payload e i (sanitize_record (df ! i)) = base_payload e i (sanitize_record (df' ! i))"
    using assms(2) by (intro base_payload_cong) simp
  then show "id_names e account_id df ! i = id_names e account_id df' ! i"
    using i assms(1) by (simp add: id_names_nth)
qed

lemma ids_of_records:
  "map (\<lambda>r. r ''id'') (records_to_insert e account_id file_id df) =
     map (\<lambda>name. Some (PStr (uuid5_url e name))) (id_names e account_id df)"
  by (rule nth_equalityI) (simp_all add: record_id)

text \<open>
  Claim C3. The ids computed for a dataframe are a function of the account, of the
  natural-key fields of each record (which of them are present, and their values) and
  of the position of the record: two dataframes of the same length whose records agree
  position by position on the natural-key fields get the same ids under the same
  account, whatever their other fields and whatever the file identifiers; each id is the
  UUID of the name built from the account, the position and the natural-key fields. In
  particular the same account and the same records give the same set of ids.
\<close>

theorem id_deterministic:
  assumes "length df = length df'"
    and "\<forall>i < length df. \<forall>k \<in> set NATURAL_KEY_COLUMNS. (df ! i) k = (df' ! i) k"
  shows "map (\<lambda>r. r ''id'') (records_to_insert e account_id file_id df)
           = map (\<lambda>r. r ''id'') (records_to_insert e account_id file_id' df') \<and>
         map (\<lambda>r. r ''id'') (records_to_insert e account_id file_id df)
           = map (\<lambda>name. Some (PStr (uuid5_url e name))) (id_names e account_id df) \<and>
         (\<lambda>r. r ''id'') ` set (records_to_insert e account_id file_id df)
           = (\<lambda>r. r ''id'') ` set (records_to_insert e account_id file_id' df')"
proof -
  have names: "id_names e account_id df = id_names e account_id df'"
    using assms by (rule id_names_cong)
  have ids: "map (\<lambda>r. r ''id'') (records_to_insert e account_id file_id df)
      = map (\<lambda>r. r ''id'') (records_to_insert e account_id file_id' df')"
    by (simp add: ids_of_records names)
  have sets: "(\<lambda>r. r ''id'') ` set (records_to_insert e account_id file_id df)
      = (\<lambda>r. r ''id'') ` set (records_to_insert e account_id file_id' df')"
    using arg_cong [OF ids, of set] by (simp only: set_map)
  show ?thesis using ids sets ids_of_records [of e account_id file_id df] by blast
qed

theorem id_deterministic_witness:
  "map (\<lambda>r. r ''id'')
     (records_to_insert sample_env ''acc'' ''file-1''
        [[''competence_date'' \<mapsto> PStr ''2024-06-01T00:00:00'', ''sales_channel'' \<mapsto> PStr ''app'']])
   = map (\<lambda>r. r ''id'')
     (records_to_insert sample_env ''acc'' ''file-2''
        [[''competence_date'' \<mapsto> PStr ''2024-06-01T00:00:00'', ''sales_channel'' \<mapsto> PStr ''site'']])"
  using id_deterministic [of
      "[[''competence_date'' \<mapsto> PStr ''2024-06-01T00:00:00'', ''sales_channel'' \<mapsto> PStr ''app'']]"
      "[[''competence_date'' \<mapsto> PStr ''2024-06-01T00:00:00'', ''sales_channel'' \<mapsto> PStr ''site'']]"
      sample_env "''acc''" "''file-1''" "''file-2''"]
  by (simp add: natural_keys_list)

lemma digit_val_digit_char: "d < 10 \<Longrightarrow> digit_val (digit_char d) = d"
  by (simp add: digit_val_def digit_char_def)

lemma nat_of_digits_snoc: "nat_of_digits (ds @ [c]) = 10 * nat_of_digits ds + digit_val c"
  by (simp add: nat_of_digits_def)

lemma nat_of_digits_digits_of_nat: "nat_of_digits (digits_of_nat n) = n"
proof (induction n rule: digits_of_nat.induct)
  case (1 n)
  show ?case
  proof (cases "n < 10")
    case True
    then show ?thesis by (simp add: nat_of_digits_def digit_val_digit_char)
  next
    case False
    have "nat_of_digits (digits_of_nat n) =
        10 * nat_of_digits (digits_of_nat (n div 10)) + digit_val (digit_char (n mod 10))"
      using False by (subst digits_of_nat.simps) (simp add: nat_of_digits_snoc)
    also have "\<dots> = 10 * (n div 10) + n mod 10"
      using False "1.IH" by (simp add: digit_val_digit_char)
    finally show ?thesis by simp
  qed
qed

lemma digits_of_nat_inj: "digits_of_nat i = digits_of_nat j \<Longrightarrow> i = j"
  by (metis nat_of_digits_digits_of_nat)

lemma str_int_nat_inj: "str_int (int i) = str_int (int j) \<Longrightarrow> i = j"
  by (simp add: str_int_def digits_of_nat_inj)

lemma dict_set_absent: "k \<notin> fst ` set al \<Longrightarrow> dict_set k v al = al @ [(k, v)]"
  by (induction al) auto

lemma natural_items_keys: "fst ` set (natural_items r) \<subseteq> set NATURAL_KEY_COLUMNS"
  by (auto simp: natural_items_def)

lemma sort_key_snoc_least:
  assumes "\<forall>y \<in> set xs. f x < f y"
  shows "sort_key f (xs @ [x]) = x # sort_key f xs"
  using assms
proof (induction xs)
  case Nil
  then show ?case by simp
next
  case (Cons a xs)
  then have "sort_key f (xs @ [x]) = x # sort_key f xs" by simp
  moreover have "\<not> f a \<le> f x" using Cons.prems by auto
  ultimately show ?case by simp
qed

lemma row_index_least: "\<forall>k \<in> set NATURAL_KEY_COLUMNS. ''_row_index'' < k"
  by (simp add: natural_keys_list)

lemma join_Cons: "join sep (x # ys) = x @ (if ys = [] then [] else sep @ join sep ys)"
  by (cases ys) simp_all

lemma base_payload_split:
  "base_payload e idx s =
     (''{'' @ json_string ''_row_index'' @ '': '') @ str_int (int idx) @
       ((if natural_items s = [] then [] else '', '' @ join '', '' (map (json_item e) (sort_key fst (natural_items s)))) @ ''}'')"
proof -
  have absent: "''_row_index'' \<notin> fst ` set (natural_items s)"
    using natural_items_keys [of s] not_natural_key(5) by blast
  have least: "\<forall>y \<in> set (natural_items s). fst (''_row_index'', PInt (int idx)) < fst y"
    using natural_items_keys [of s] row_index_least by auto
  have "sort_key fst (dict_set ''_row_index'' (PInt (int idx)) (natural_items s))
      = (''_row_index'', PInt (int idx)) # sort_key fst (natural_items s)"
    using sort_key_snoc_least [OF least] by (simp add: dict_set_absent [OF absent])
  moreover have "sort_key fst (natural_items s) = [] \<longleftrightarrow> natural_items s = []"
    using length_sort [of fst "natural_items s"] by (metis length_0_conv)
  ultimately show ?thesis
    by (simp add: base_payload_def json_dumps_def join_Cons json_item_def)
qed

lemma base_payload_inj: "base_payload e i s = base_payload e j s \<Longrightarrow> i = j"
  by (simp add: base_payload_split str_int_nat_inj)

lemma id_names_differ:
  assumes "i < length df" "j < length df" "i \<noteq> j"
    and "\<forall>k \<in> set NATURAL_KEY_COLUMNS. (df ! i) k = (df ! j) k"
  shows "id_names e account_id df ! i \<noteq> id_names e account_id df ! j"
proof
  assume "id_names e account_id df ! i = id_names e account_id df ! j"
  then have "base_payload e i (sanitize_record (df ! i)) = base_payload e j (sanitize_record (df ! j))"
    using assms(1,2) by (simp add: id_names_nth)
  moreover have "base_payload e j (sanitize_record (df ! j)) = base_payload e j (sanitize_record (df ! i))"
    using assms(4) by (intro base_payload_cong) simp
  ultimately show False using base_payload_inj assms(3) by metis
qed

lemma unique_records_distinct:
  assumes "distinct (map (\<lambda>r. get r ''id'') rs)" and "\<forall>r \<in> set rs. get r ''id'' \<notin> seen"
  shows "unique_records seen rs = rs"
  using assms
proof (induction rs arbitrary: seen)
  case Nil
  then show ?case by simp
next
  case (Cons r rs)
  have 1: "unique_records seen rs = rs" using Cons by simp
  have "\<forall>r' \<in> set rs. get r' ''id'' \<noteq> get r ''id''"
    using Cons.prems(1) by (auto simp: image_iff)
  then have 2: "unique_records (insert (get r ''id'') seen) rs = rs"
    using Cons by (intro Cons.IH) auto
  show ?case using Cons.prems 1 2 by (simp add: Let_def)
qed

lemma unique_records_first:
  assumes "truthy v"
  shows "filter (\<lambda>r. get r ''id'' = v) (unique_records seen rs) =
     (if v \<in> seen then [] else take 1 (filter (\<lambda>r. get r ''id'' = v) rs))"
  using assms
proof (induction rs arbitrary: seen)
  case Nil
  then show ?case by simp
next
  case (Cons r rs)
  show ?case
  proof (cases "get r ''id'' = v")
    case True
    then show ?thesis using Cons by (simp add: Let_def)
  next
    case False
    then show ?thesis using Cons by (auto simp: Let_def)
  qed
qed

lemma records_ids_distinct:
  assumes "distinct (map (uuid5_url e) (id_names e account_id df))"
  shows "distinct (map (\<lambda>r. get r ''id'') (records_to_insert e account_id file_id df))"
proof -
  have "map (\<lambda>r. get r ''id'') (records_to_insert e account_id file_id df)
      = map PStr (map (uuid5_url e) (id_names e account_id df))"
    by (rule nth_equalityI) (simp_all add: get_def record_id)
  then show ?thesis using assms by (simp add: distinct_map inj_on_def del: map_map)
qed

lemma unique_records_all:
  assumes "distinct (map (uuid5_url e) (id_names e account_id df))"
  shows "unique_records {} (records_to_insert e account_id file_id df)
           = records_to_insert e account_id file_id df"
  using records_ids_distinct [OF assms] by (intro unique_records_distinct) simp_all

lemma apply_call_faults [simp]: "faults (apply_call c st) = faults st"
  by (cases c) simp_all

lemma apply_call_calls [simp]: "calls (apply_call c st) = calls st"
  by (cases c) simp_all

lemma execute_eq:
  "execute c st =
     (if next_fails st
      then (False, st\<lparr>faults := tl (faults st), calls := calls st @ [(c, False)]\<rparr>)
      else (True, apply_call c (st\<lparr>faults := tl (faults st), calls := calls st @ [(c, True)]\<rparr>)))"
  by (simp add: execute_def next_fails_def Let_def)

lemma execute_calls: "calls (snd (execute c st)) = calls st @ [(c, \<not> next_fails st)]"
  by (simp add: execute_eq)

lemma execute_faults: "faults (snd (execute c st)) = tl (faults st)"
  by (simp add: execute_eq)

lemma execute_fst: "fst (execute c st) = (\<not> next_fails st)"
  by (simp add: execute_eq)

lemma next_fails_Nil: "faults st = [] \<Longrightarrow> \<not> next_fails st"
  by (simp add: next_fails_def)

lemma next_fails_nth: "next_fails st \<longleftrightarrow> faults st \<noteq> [] \<and> faults st ! 0"
  by (cases "faults st") (simp_all add: next_fails_def)

lemma execute_received_files:
  "received_files (snd (execute c st)) =
     (if next_fails st then received_files st
      else received_files (apply_call c st))"
  by (cases c) (simp_all add: execute_eq)

lemma execute_conciliation:
  "ifood_conciliation (snd (execute c st)) =
     (if next_fails st then ifood_conciliation st
      else ifood_conciliation (apply_call c st))"
  by (cases c) (simp_all add: execute_eq)

lemma valid_bounds_Cons:
  "valid_bounds (c # cs) =
     (case month_bounds c of None \<Rightarrow> valid_bounds cs | Some b \<Rightarrow> b # valid_bounds cs)"
  by (simp add: valid_bounds_def map_filter_simps split: option.splits)

lemma valid_bounds_Nil [simp]: "valid_bounds [] = []"
  by (simp add: valid_bounds_def map_filter_simps)

lemma delete_competences_calls:
  "map fst (calls (delete_competences account_id cs st)) =
     map fst (calls st) @ map (\<lambda>(lo, hi). DeletePeriod account_id lo hi) (valid_bounds cs)"
  by (induction cs arbitrary: st)
     (auto simp: valid_bounds_Cons execute_calls split: option.splits)

lemma new_calls_append: "calls st' = calls st @ new \<Longrightarrow> new_calls st st' = new"
  by (simp add: new_calls_def)

lemma delete_competences_new:
  "\<exists>new. calls (delete_competences account_id cs st) = calls st @ new \<and>
         map fst new = map (\<lambda>(lo, hi). DeletePeriod account_id lo hi) (valid_bounds cs)"
proof (induction cs arbitrary: st)
  case Nil
  then show ?case by simp
next
  case (Cons c cs)
  show ?case
  proof (cases "month_bounds c")
    case None
    then show ?thesis using Cons [of st] by (simp add: valid_bounds_Cons)
  next
    case (Some b)
    obtain lo hi where b: "b = (lo, hi)" by (cases b)
    let ?st1 = "snd (execute (DeletePeriod account_id lo hi) st)"
    from Cons [of ?st1] obtain new where
      new: "calls (delete_competences account_id cs ?st1) = calls ?st1 @ new"
        "map fst new = map (\<lambda>(lo, hi). DeletePeriod account_id lo hi) (valid_bounds cs)"
      by blast
    have "calls (delete_competences account_id (c # cs) st) =
        calls st @ ((DeletePeriod account_id lo hi, \<not> next_fails st) # new)"
      using Some b new(1) by (simp add: execute_calls)
    moreover have "map fst ((DeletePeriod account_id lo hi, \<not> next_fails st) # new) =
        map (\<lambda>(lo, hi). DeletePeriod account_id lo hi) (valid_bounds (c # cs))"
      using Some b new(2) by (simp add: valid_bounds_Cons)
    ultimately show ?thesis by blast
  qed
qed

lemma delete_competences_faults:
  "faults (delete_competences account_id cs st) = drop (length (valid_bounds cs)) (faults st)"
  by (induction cs arbitrary: st)
     (auto simp: valid_bounds_Cons execute_faults drop_Suc split: option.splits)

lemma delete_competences_received_files:
  "received_files (delete_competences account_id cs st) = received_files st"
  by (induction cs arbitrary: st)
     (auto simp: execute_received_files split: option.splits)

lemma targeted_Cons:
  "targeted a ((lo, hi) # bs) r \<longleftrightarrow>
     (r ''account_id'' = Some (PStr a) \<and> in_period lo hi r) \<or> targeted a bs r"
  by (auto simp: targeted_def)

lemma delete_competences_frame:
  assumes "\<forall>r. targeted account_id (valid_bounds cs) r \<longrightarrow> Q r"
  shows "filter (\<lambda>r. \<not> Q r) (ifood_conciliation (delete_competences account_id cs st))
           = filter (\<lambda>r. \<not> Q r) (ifood_conciliation st)"
  using assms
proof (induction cs arbitrary: st)
  case Nil
  then show ?case by simp
next
  case (Cons c cs)
  show ?case
  proof (cases "month_bounds c")
    case None
    then show ?thesis using Cons by (simp add: valid_bounds_Cons)
  next
    case (Some b)
    obtain lo hi where b: "b = (lo, hi)" by (cases b)
    let ?st1 = "snd (execute (DeletePeriod account_id lo hi) st)"
    have Q: "\<forall>r. targeted account_id (valid_bounds cs) r \<longrightarrow> Q r"
      and Q1: "\<forall>r. r ''account_id'' = Some (PStr account_id) \<and> in_period lo hi r \<longrightarrow> Q r"
      using Cons.prems Some b by (auto simp: valid_bounds_Cons targeted_Cons)
    have "filter (\<lambda>r. \<not> Q r) (ifood_conciliation (delete_competences account_id cs ?st1))
        = filter (\<lambda>r. \<not> Q r) (ifood_conciliation ?st1)"
      using Q by (rule Cons.IH)
    also have "\<dots> = filter (\<lambda>r. \<not> Q r) (ifood_conciliation st)"
      using Q1 by (auto simp: execute_conciliation intro: filter_cong)
    finally show ?thesis using Some b by simp
  qed
qed

lemma delete_competences_subset:
  "set (ifood_conciliation (delete_competences account_id cs st)) \<subseteq> set (ifood_conciliation st)"
proof (induction cs arbitrary: st)
  case Nil
  then show ?case by simp
next
  case (Cons c cs)
  show ?case
  proof (cases "month_bounds c")
    case None
    then show ?thesis using Cons by simp
  next
    case (Some b)
    obtain lo hi where b: "b = (lo, hi)" by (cases b)
    let ?st1 = "snd (execute (DeletePeriod account_id lo hi) st)"
    have "set (ifood_conciliation ?st1) \<subseteq> set (ifood_conciliation st)"
      by (auto simp: execute_conciliation)
    then show ?thesis using Cons [of ?st1] Some b by auto
  qed
qed

lemma delete_competences_exact:
  assumes "faults st = []"
  shows "ifood_conciliation (delete_competences account_id cs st)
           = filter (\<lambda>r. \<not> targeted account_id (valid_bounds cs) r) (ifood_conciliation st)"
  using assms
proof (induction cs arbitrary: st)
  case Nil
  then show ?case by (simp add: targeted_def)
next
  case (Cons c cs)
  show ?case
  proof (cases "month_bounds c")
    case None
    then show ?thesis using Cons by (simp add: valid_bounds_Cons)
  next
    case (Some b)
    obtain lo hi where b: "b = (lo, hi)" by (cases b)
    let ?st1 = "snd (execute (DeletePeriod account_id lo hi) st)"
    have f: "faults ?st1 = []" using Cons.prems by (simp add: execute_faults)
    have t: "ifood_conciliation ?st1 =
        filter (\<lambda>r. \<not> (r ''account_id'' = Some (PStr account_id) \<and> in_period lo hi r))
          (ifood_conciliation st)"
      using Cons.prems by (simp add: execute_conciliation next_fails_Nil)
    have "ifood_conciliation (delete_competences account_id (c # cs) st)
        = filter (\<lambda>r. \<not> targeted account_id (valid_bounds cs) r) (ifood_conciliation ?st1)"
      using Some b Cons.IH [OF f] by simp
    also have "\<dots> = filter (\<lambda>r. \<not> targeted account_id (valid_bounds (c # cs)) r)
        (ifood_conciliation st)"
      using Some b by (auto simp: t valid_bounds_Cons targeted_Cons intro: filter_cong)
    finally show ?thesis .
  qed
qed

lemma competence_key_Some:
  "competence_key rec = Some m \<longleftrightarrow>
     (\<exists>s. rec ''competence_date'' = Some (PStr s) \<and> 7 \<le> length s \<and> m = take 7 s)"
proof (cases "rec ''competence_date''")
  case None
  then show ?thesis by (simp add: competence_key_def get_def)
next
  case (Some v)
  then show ?thesis
    by (cases v) (auto simp: competence_key_def get_def Let_def)
qed

lemma set_map_filter:
  "set (List.map_filter f xs) = {y. \<exists>x \<in> set xs. f x = Some y}"
  by (induction xs) (auto split: option.splits)

lemma set_competences_to_delete:
  "set (competences_to_delete records) =
     {m. \<exists>rec \<in> set records. competence_key rec = Some m}"
  by (auto simp: competences_to_delete_def set_map_filter)

lemma set_valid_bounds:
  "set (valid_bounds cs) = {b. \<exists>c \<in> set cs. month_bounds c = Some b}"
  by (auto simp: valid_bounds_def set_map_filter)

lemma period_bounds_iff:
  "(lo, hi) \<in> set (valid_bounds (competences_to_delete records)) \<longleftrightarrow>
     (\<exists>rec \<in> set records. \<exists>s. rec ''competence_date'' = Some (PStr s) \<and> 7 \<le> length s \<and>
        month_bounds (take 7 s) = Some (lo, hi))"
  by (auto simp: set_valid_bounds set_competences_to_delete competence_key_Some)

lemma month_bounds_iff:
  "month_bounds m = Some (lo, hi) \<longleftrightarrow>
     (\<exists>year month. map py_int (split CHR ''-'' m) = [Some year, Some month] \<and>
        1 \<le> year \<and> year \<le> 9999 \<and> 1 \<le> month \<and> month \<le> 12 \<and>
        lo = isoformat year month 1 \<and>
        (month = 12 \<longrightarrow> year < 9999 \<and> hi = isoformat (year + 1) 1 1) \<and>
        (month \<noteq> 12 \<longrightarrow> hi = isoformat year (month + 1) 1))"
  (is "?L \<longleftrightarrow> ?R")
proof
  assume ?L
  then obtain year month where
    p: "map py_int (split CHR ''-'' m) = [Some year, Some month]"
    by (auto simp: month_bounds_def split: list.splits option.splits)
  from \<open>?L\<close> p have
    "1 \<le> year \<and> year \<le> 9999 \<and> 1 \<le> month \<and> month \<le> 12 \<and>
        lo = isoformat year month 1 \<and>
        (month = 12 \<longrightarrow> year < 9999 \<and> hi = isoformat (year + 1) 1 1) \<and>
        (month \<noteq> 12 \<longrightarrow> hi = isoformat year (month + 1) 1)"
    by (simp add: month_bounds_def first_of_month_ok_def split: if_splits)
  with p show ?R
    by - (rule exI [of _ year], rule exI [of _ month], simp)
next
  assume ?R
  then obtain year month where
    p: "map py_int (split CHR ''-'' m) = [Some year, Some month]"
    and r: "1 \<le> year" "year \<le> 9999" "1 \<le> month" "month \<le> 12"
      "lo = isoformat year month 1"
      "month = 12 \<longrightarrow> year < 9999 \<and> hi = isoformat (year + 1) 1 1"
      "month \<noteq> 12 \<longrightarrow> hi = isoformat year (month + 1) 1"
    by (elim exE conjE) iprover
  show ?L using r by (auto simp: month_bounds_def p first_of_month_ok_def)
qed

lemma delete_periods_eq:
  "delete_periods account_id records st =
     delete_competences account_id (competences_to_delete records) st"
proof (cases "records \<noteq> [] \<and> competences_to_delete records \<noteq> []")
  case True
  then show ?thesis by (simp add: delete_periods_def)
next
  case False
  then have "competences_to_delete records = []"
    by (auto simp: competences_to_delete_def map_filter_simps)
  then show ?thesis by (simp add: delete_periods_def)
qed

lemma month_bounds_december: "month_bounds ''2024-12'' = Some (''2024-12-01'', ''2025-01-01'')"
  by code_simp

lemma june_bounds:
  "valid_bounds (competences_to_delete june_records) = [(''2024-06-01'', ''2024-07-01'')]"
  unfolding june_records_def by code_simp

lemma in_period_iff:
  "in_period lo hi r \<longleftrightarrow> (\<exists>d. r ''competence_date'' = Some (PStr d) \<and> lo \<le> d \<and> d < hi)"
proof (cases "r ''competence_date''")
  case None
  then show ?thesis by (simp add: in_period_def)
next
  case (Some v)
  then show ?thesis by (cases v) (simp_all add: in_period_def)
qed

text \<open>
  Claim C4. The period-scoped deletion leaves every stored row that is not selected
  unchanged, adds none, and, when its requests succeed, removes exactly the selected
  rows. A row is selected when it belongs to the account and its \<open>competence_date\<close> lies
  in the interval from the first day of a month to the first day of the next month
  (January of the next year after December), for a month whose key \<open>YYYY-MM\<close> is the
  first seven characters of the \<open>competence_date\<close> text of a record of the new file.
\<close>

theorem period_deletion_scope:
  fixes account_id :: string and records :: "row list" and st :: store
  defines "bounds \<equiv> valid_bounds (competences_to_delete records)"
    and "st' \<equiv> delete_periods account_id records st"
  shows "filter (\<lambda>r. \<not> targeted account_id bounds r) (ifood_conciliation st')
           = filter (\<lambda>r. \<not> targeted account_id bounds r) (ifood_conciliation st) \<and>
         set (ifood_conciliation st') \<subseteq> set (ifood_conciliation st) \<and>
         (faults st = [] \<longrightarrow>
            ifood_conciliation st'
              = filter (\<lambda>r. \<not> targeted account_id bounds r) (ifood_conciliation st)) \<and>
         (\<forall>r. targeted account_id bounds r \<longleftrightarrow>
            r ''account_id'' = Some (PStr account_id) \<and>
            (\<exists>rec \<in> set records. \<exists>s lo hi d.
               rec ''competence_date'' = Some (PStr s) \<and> 7 \<le> length s \<and>
               month_bounds (take 7 s) = Some (lo, hi) \<and>
               r ''competence_date'' = Some (PStr d) \<and> lo \<le> d \<and> d < hi)) \<and>
         (\<forall>m lo hi. month_bounds m = Some (lo, hi) \<longleftrightarrow>
            (\<exists>year month. map py_int (split CHR ''-'' m) = [Some year, Some month] \<and>
               1 \<le> year \<and> year \<le> 9999 \<and> 1 \<le> month \<and> month \<le> 12 \<and>
               lo = isoformat year month 1 \<and>
               (month = 12 \<longrightarrow> year < 9999 \<and> hi = isoformat (year + 1) 1 1) \<and>
               (month \<noteq> 12 \<longrightarrow> hi = isoformat year (month + 1) 1)))"
proof -
  have st': "st' = delete_competences account_id (competences_to_delete records) st"
    by (simp add: st'_def delete_periods_eq)
  have 1: "filter (\<lambda>r. \<not> targeted account_id bounds r) (ifood_conciliation st')
           = filter (\<lambda>r. \<not> targeted account_id bounds r) (ifood_conciliation st)"
    unfolding st' bounds_def by (rule delete_competences_frame) simp
  have 2: "set (ifood_conciliation st') \<subseteq> set (ifood_conciliation st)"
    unfolding st' by (rule delete_competences_subset)
  have 3: "faults st = [] \<longrightarrow>
            ifood_conciliation st'
              = filter (\<lambda>r. \<not> targeted account_id bounds r) (ifood_conciliation st)"
    unfolding st' bounds_def by (simp add: delete_competences_exact)
  have 4: "targeted account_id bounds r \<longleftrightarrow>
            r ''account_id'' = Some (PStr account_id) \<and>
            (\<exists>rec \<in> set records. \<exists>s lo hi d.
               rec ''competence_date'' = Some (PStr s) \<and> 7 \<le> length s \<and>
               month_bounds (take 7 s) = Some (lo, hi) \<and>
               r ''competence_date'' = Some (PStr d) \<and> lo \<le> d \<and> d < hi)" for r
  proof -
    have "list_ex (\<lambda>(lo, hi). in_period lo hi r) bounds \<longleftrightarrow>
        (\<exists>lo hi. (lo, hi) \<in> set bounds \<and> in_period lo hi r)"
      by (auto simp: list_ex_iff)
    also have "\<dots> \<longleftrightarrow> (\<exists>rec \<in> set records. \<exists>s lo hi d.
               rec ''competence_date'' = Some (PStr s) \<and> 7 \<le> length s \<and>
               month_bounds (take 7 s) = Some (lo, hi) \<and>
               r ''competence_date'' = Some (PStr d) \<and> lo \<le> d \<and> d < hi)"
      (is "?A \<longleftrightarrow> ?B")
    proof
      assume ?A
      then obtain lo hi where a: "(lo, hi) \<in> set bounds" and b: "in_period lo hi r"
        by (elim exE conjE)
      from a obtain rec s where c: "rec \<in> set records"
        "rec ''competence_date'' = Some (PStr s)" "7 \<le> length s"
        "month_bounds (take 7 s) = Some (lo, hi)"
        unfolding bounds_def period_bounds_iff by (elim bexE exE conjE)
      from b obtain d where d: "r ''competence_date'' = Some (PStr d)" "lo \<le> d" "d < hi"
        unfolding in_period_iff by (elim exE conjE)
      show ?B
        by (rule bexI [OF _ c(1)], rule exI [of _ s], rule exI [of _ lo], rule exI [of _ hi],
            rule exI [of _ d]) (simp add: c d)
    next
      assume ?B
      then obtain rec s lo hi d where c: "rec \<in> set records"
        "rec ''competence_date'' = Some (PStr s)" "7 \<le> length s"
        "month_bounds (take 7 s) = Some (lo, hi)"
        and d: "r ''competence_date'' = Some (PStr d)" "lo \<le> d" "d < hi"
        by (elim bexE exE conjE)
      have "(lo, hi) \<in> set bounds"
        unfolding bounds_def period_bounds_iff
        by (rule bexI [OF _ c(1)], rule exI [of _ s]) (simp add: c)
      moreover have "in_period lo hi r"
        unfolding in_period_iff by (rule exI [of _ d]) (simp add: d)
      ultimately show ?A by (intro exI conjI)
    qed
    finally show ?thesis by (simp add: targeted_def)
  qed
  show ?thesis by (intro conjI allI) (rule 1 2 3 4 month_bounds_iff)+
qed

theorem period_deletion_scope_witness:
  "faults example_store = [] \<and>
   ifood_conciliation (delete_periods ''acc'' june_records example_store) =
     [stored_row ''a'' ''acc'' ''2024-05-31T00:00:00'',
      stored_row ''d'' ''acc'' ''2024-07-01T00:00:00'',
      stored_row ''e'' ''other'' ''2024-06-15T00:00:00''] \<and>
   month_bounds ''2024-12'' = Some (''2024-12-01'', ''2025-01-01'')"
  using period_deletion_scope [of "''acc''" june_records example_store] month_bounds_december
  by (simp add: june_bounds example_store_def targeted_def in_period_def stored_row_def)

lemma upsert_batches_Cons:
  "upsert_batches (b # bs) st =
     (if next_fails st then (Some StoreError, snd (execute (Upsert b) st))
      else upsert_batches bs (snd (execute (Upsert b) st)))"
  by (simp add: execute_eq)

lemma tl_faults_nth:
  "j < length (tl fs) \<Longrightarrow> tl fs ! j = fs ! Suc j"
  by (cases fs) simp_all

lemma upsert_batches_ok:
  assumes "\<forall>j < length bs. j < length (faults st) \<longrightarrow> \<not> faults st ! j"
  shows "fst (upsert_batches bs st) = None \<and>
         (\<exists>new. calls (snd (upsert_batches bs st)) = calls st @ new \<and>
                map fst new = map Upsert bs) \<and>
         ifood_conciliation (snd (upsert_batches bs st))
           = foldl (foldl upsert_row) (ifood_conciliation st) bs \<and>
         received_files (snd (upsert_batches bs st)) = received_files st \<and>
         faults (snd (upsert_batches bs st)) = drop (length bs) (faults st)"
  using assms
proof (induction bs arbitrary: st)
  case Nil
  then show ?case by simp
next
  case (Cons b bs)
  let ?st1 = "snd (execute (Upsert b) st)"
  have ok: "\<not> next_fails st"
    using Cons.prems by (auto simp: next_fails_nth)
  have f1: "faults ?st1 = tl (faults st)" by (simp add: execute_faults)
  have "\<forall>j < length bs. j < length (faults ?st1) \<longrightarrow> \<not> faults ?st1 ! j"
  proof (intro allI impI)
    fix j assume j: "j < length bs" "j < length (faults ?st1)"
    then have "Suc j < length (faults st)" by (simp add: f1)
    with Cons.prems j(1) have "\<not> faults st ! Suc j" by simp
    then show "\<not> faults ?st1 ! j" using j(2) by (simp add: f1 tl_faults_nth)
  qed
  from Cons.IH [OF this] obtain new where
    ih: "fst (upsert_batches bs ?st1) = None"
      "calls (snd (upsert_batches bs ?st1)) = calls ?st1 @ new"
      "map fst new = map Upsert bs"
      "ifood_conciliation (snd (upsert_batches bs ?st1))
         = foldl (foldl upsert_row) (ifood_conciliation ?st1) bs"
      "received_files (snd (upsert_batches bs ?st1)) = received_files ?st1"
      "faults (snd (upsert_batches bs ?st1)) = drop (length bs) (faults ?st1)"
    by (elim conjE exE)
  have eq: "upsert_batches (b # bs) st = upsert_batches bs ?st1"
    using ok by (simp only: upsert_batches_Cons if_False)
  have c: "calls (snd (upsert_batches (b # bs) st)) = calls st @ ((Upsert b, True) # new)"
    using ok by (simp add: eq ih(2) execute_calls del: upsert_batches.simps)
  have m: "map fst ((Upsert b, True) # new) = map Upsert (b # bs)"
    by (simp add: ih(3))
  have t: "ifood_conciliation (snd (upsert_batches (b # bs) st))
      = foldl (foldl upsert_row) (ifood_conciliation st) (b # bs)"
    using ok by (simp add: eq ih(4) execute_conciliation del: upsert_batches.simps)
  have r: "received_files (snd (upsert_batches (b # bs) st)) = received_files st"
    using ok by (simp add: eq ih(5) execute_received_files del: upsert_batches.simps)
  have f: "faults (snd (upsert_batches (b # bs) st)) = drop (length (b # bs)) (faults st)"
    by (simp add: eq ih(6) f1 drop_Suc del: upsert_batches.simps)
  have "fst (upsert_batches (b # bs) st) = None" by (simp only: eq ih(1))
  then show ?case using c m t r f by (intro conjI exI [of _ "(Upsert b, True) # new"]) assumption+
qed

lemma upsert_batches_fail:
  assumes "j < length bs" "j < length (faults st)" "faults st ! j"
    and "\<forall>i < j. \<not> faults st ! i"
  shows "fst (upsert_batches bs st) = Some StoreError \<and>
         (\<exists>new. calls (snd (upsert_batches bs st)) = calls st @ new \<and>
                map fst new = map Upsert (take (Suc j) bs)) \<and>
         ifood_conciliation (snd (upsert_batches bs st))
           = foldl (foldl upsert_row) (ifood_conciliation st) (take j bs) \<and>
         received_files (snd (upsert_batches bs st)) = received_files st"
  using assms
proof (induction bs arbitrary: st j)
  case Nil
  then show ?case by simp
next
  case (Cons b bs)
  let ?st1 = "snd (execute (Upsert b) st)"
  have f1: "faults ?st1 = tl (faults st)" by (simp add: execute_faults)
  show ?case
  proof (cases j)
    case 0
    then have fails: "next_fails st" using Cons.prems by (auto simp: next_fails_nth)
    have eq: "upsert_batches (b # bs) st = (Some StoreError, ?st1)"
      using fails by (simp only: upsert_batches_Cons if_True)
    have c: "calls (snd (upsert_batches (b # bs) st)) = calls st @ [(Upsert b, False)]"
      using fails by (simp add: eq execute_calls del: upsert_batches.simps)
    have t: "ifood_conciliation (snd (upsert_batches (b # bs) st))
        = foldl (foldl upsert_row) (ifood_conciliation st) (take j (b # bs))"
      using fails 0 by (simp add: eq execute_conciliation del: upsert_batches.simps)
    have r: "received_files (snd (upsert_batches (b # bs) st)) = received_files st"
      using fails by (simp add: eq execute_received_files del: upsert_batches.simps)
    have m: "map fst [(Upsert b, False)] = map Upsert (take (Suc j) (b # bs))"
      using 0 by simp
    have "fst (upsert_batches (b # bs) st) = Some StoreError" by (simp add: eq del: upsert_batches.simps)
    then show ?thesis using c m t r
      by (intro conjI exI [of _ "[(Upsert b, False)]"]) assumption+
  next
    case (Suc k)
    have ok: "\<not> next_fails st"
      using Cons.prems(4) Suc by (auto simp: next_fails_nth)
    have k: "k < length bs" "k < length (faults ?st1)"
      using Cons.prems(1,2) Suc by (simp_all add: f1)
    have fk: "faults ?st1 ! k" using Cons.prems(3) Suc k(2) by (simp add: f1 tl_faults_nth)
    have before: "\<forall>i < k. \<not> faults ?st1 ! i"
    proof (intro allI impI)
      fix i assume i: "i < k"
      then have "\<not> faults st ! Suc i" using Cons.prems(4) Suc by simp
      moreover have "i < length (tl (faults st))" using i k(2) by (simp add: f1)
      ultimately show "\<not> faults ?st1 ! i" by (simp add: f1 tl_faults_nth)
    qed
    from Cons.IH [OF k fk before] obtain new where
      ih: "fst (upsert_batches bs ?st1) = Some StoreError"
        "calls (snd (upsert_batches bs ?st1)) = calls ?st1 @ new"
        "map fst new = map Upsert (take (Suc k) bs)"
        "ifood_conciliation (snd (upsert_batches bs ?st1))
           = foldl (foldl upsert_row) (ifood_conciliation ?st1) (take k bs)"
        "received_files (snd (upsert_batches bs ?st1)) = received_files ?st1"
      by (elim conjE exE)
    have eq: "upsert_batches (b # bs) st = upsert_batches bs ?st1"
      using ok by (simp only: upsert_batches_Cons if_False)
    have c: "calls (snd (upsert_batches (b # bs) st)) = calls st @ ((Upsert b, True) # new)"
      using ok by (simp add: eq ih(2) execute_calls del: upsert_batches.simps)
    have m: "map fst ((Upsert b, True) # new) = map Upsert (take (Suc j) (b # bs))"
      using Suc by (simp add: ih(3))
    have t: "ifood_conciliation (snd (upsert_batches (b # bs) st))
        = foldl (foldl upsert_row) (ifood_conciliation st) (take j (b # bs))"
      using ok Suc by (simp add: eq ih(4) execute_conciliation del: upsert_batches.simps)
    have r: "received_files (snd (upsert_batches (b # bs) st)) = received_files st"
      using ok by (simp add: eq ih(5) execute_received_files del: upsert_batches.simps)
    have "fst (upsert_batches (b # bs) st) = Some StoreError" by (simp only: eq ih(1))
    then show ?thesis using c m t r
      by (intro conjI exI [of _ "(Upsert b, True) # new"]) assumption+
  qed
qed

lemma deletions_calls:
  "\<exists>new. calls (delete_periods account_id records (delete_file_records file_id st))
            = calls st @ new \<and>
         map fst new = DeleteFile file_id #
           map (\<lambda>(lo, hi). DeletePeriod account_id lo hi)
             (valid_bounds (competences_to_delete records))"
proof -
  let ?st1 = "delete_file_records file_id st"
  obtain new where new:
    "calls (delete_competences account_id (competences_to_delete records) ?st1) = calls ?st1 @ new"
    "map fst new = map (\<lambda>(lo, hi). DeletePeriod account_id lo hi)
       (valid_bounds (competences_to_delete records))"
    using delete_competences_new [of account_id "competences_to_delete records" ?st1]
    by (elim exE conjE)
  have c: "calls (delete_periods account_id records ?st1)
      = calls st @ ((DeleteFile file_id, \<not> next_fails st) # new)"
    unfolding delete_periods_eq new(1) by (simp add: delete_file_records_def execute_calls)
  have m: "map fst ((DeleteFile file_id, \<not> next_fails st) # new) = DeleteFile file_id #
           map (\<lambda>(lo, hi). DeletePeriod account_id lo hi)
             (valid_bounds (competences_to_delete records))"
    by (simp add: new(2))
  show ?thesis using c m by (intro exI [of _ "(DeleteFile file_id, \<not> next_fails st) # new"] conjI)
qed

lemma deletions_faults:
  "faults (delete_periods account_id records (delete_file_records file_id st))
     = drop (Suc (length (valid_bounds (competences_to_delete records)))) (faults st)"
  by (simp add: delete_periods_eq delete_competences_faults delete_file_records_def
      execute_faults drop_Suc)

lemma deletions_received_files:
  "received_files (delete_periods account_id records (delete_file_records file_id st))
     = received_files st"
  by (simp add: delete_periods_eq delete_competences_received_files delete_file_records_def
      execute_received_files)

lemma save_data_in_batches_eq:
  "save_data_in_batches e df account_id file_id st =
     upsert_batches (batches 100 (unique_records {} (records_to_insert e account_id file_id df)))
       (delete_periods account_id (unique_records {} (records_to_insert e account_id file_id df))
          (delete_file_records file_id st))"
  by (simp add: save_data_in_batches_def Let_def)

text \<open>
  Claim C9. Whatever the outcomes of the file-scoped and of the period-scoped deletion
  requests, the persister goes on to the upserts: when no upsert request raises it
  returns normally, having sent the file deletion, one period deletion for each valid
  key and one upsert for each batch. When the upsert of batch \<open>j\<close> is the first to raise,
  the exception leaves the persister, the upserts sent are those of the batches up to
  \<open>j\<close> and no other, and the table holds the batches before \<open>j\<close> on top of what the
  deletions left.
\<close>

theorem deletion_failures_tolerated_upsert_failure_fatal:
  fixes e :: env and df :: "row list" and account_id file_id :: string and st :: store
  defines "unique \<equiv> unique_records {} (records_to_insert e account_id file_id df)"
  defines "bounds \<equiv> valid_bounds (competences_to_delete unique)"
    and "result \<equiv> save_data_in_batches e df account_id file_id st"
  defines "upsert_faults \<equiv> drop (Suc (length bounds)) (faults st)"
    and "deletions \<equiv> DeleteFile file_id # map (\<lambda>(lo, hi). DeletePeriod account_id lo hi) bounds"
  shows "((\<forall>j < length (batches 100 unique). j < length upsert_faults \<longrightarrow> \<not> upsert_faults ! j) \<longrightarrow>
            fst result = None \<and>
            map fst (new_calls st (snd result)) = deletions @ map Upsert (batches 100 unique)) \<and>
         (\<forall>j. j < length (batches 100 unique) \<and> j < length upsert_faults \<and> upsert_faults ! j \<and>
              (\<forall>i < j. \<not> upsert_faults ! i) \<longrightarrow>
            fst result = Some StoreError \<and>
            map fst (new_calls st (snd result))
              = deletions @ map Upsert (take (Suc j) (batches 100 unique)) \<and>
            ifood_conciliation (snd result)
              = foldl (foldl upsert_row)
                  (ifood_conciliation
                     (delete_periods account_id unique (delete_file_records file_id st)))
                  (take j (batches 100 unique)))"
proof -
  let ?st2 = "delete_periods account_id unique (delete_file_records file_id st)"
  let ?bs = "batches 100 unique"
  have res: "result = upsert_batches ?bs ?st2"
    by (simp add: result_def unique_def save_data_in_batches_eq)
  have f2: "faults ?st2 = upsert_faults"
    by (simp add: upsert_faults_def bounds_def deletions_faults)
  obtain new where new: "calls ?st2 = calls st @ new" "map fst new = deletions"
    using deletions_calls [of account_id unique file_id st]
    unfolding deletions_def bounds_def by (elim exE conjE)
  have ok: "fst result = None \<and>
            map fst (new_calls st (snd result)) = deletions @ map Upsert ?bs"
    if a: "\<forall>j < length ?bs. j < length upsert_faults \<longrightarrow> \<not> upsert_faults ! j"
  proof -
    have "\<forall>j < length ?bs. j < length (faults ?st2) \<longrightarrow> \<not> faults ?st2 ! j"
      using a by (simp only: f2)
    from upsert_batches_ok [OF this] obtain new' where
      u: "fst (upsert_batches ?bs ?st2) = None"
        "calls (snd (upsert_batches ?bs ?st2)) = calls ?st2 @ new'"
        "map fst new' = map Upsert ?bs"
      by (elim exE conjE)
    have "calls (snd result) = calls st @ (new @ new')"
      by (simp add: res u(2) new(1))
    then have "new_calls st (snd result) = new @ new'" by (rule new_calls_append)
    then show ?thesis by (simp add: res u(1) u(3) new(2))
  qed
  have fail: "fst result = Some StoreError \<and>
            map fst (new_calls st (snd result)) = deletions @ map Upsert (take (Suc j) ?bs) \<and>
            ifood_conciliation (snd result)
              = foldl (foldl upsert_row) (ifood_conciliation ?st2) (take j ?bs)"
    if a: "j < length ?bs \<and> j < length upsert_faults \<and> upsert_faults ! j \<and>
              (\<forall>i < j. \<not> upsert_faults ! i)" for j
  proof -
    have p: "j < length ?bs" "j < length (faults ?st2)" "faults ?st2 ! j"
      "\<forall>i < j. \<not> faults ?st2 ! i"
      using a by (simp_all add: f2)
    from upsert_batches_fail [OF p] obtain new' where
      u: "fst (upsert_batches ?bs ?st2) = Some StoreError"
        "calls (snd (upsert_batches ?bs ?st2)) = calls ?st2 @ new'"
        "map fst new' = map Upsert (take (Suc j) ?bs)"
        "ifood_conciliation (snd (upsert_batches ?bs ?st2))
           = foldl (foldl upsert_row) (ifood_conciliation ?st2) (take j ?bs)"
      by (elim exE conjE)
    have "calls (snd result) = calls st @ (new @ new')"
      by (simp add: res u(2) new(1))
    then have "new_calls st (snd result) = new @ new'" by (rule new_calls_append)
    then show ?thesis by (simp add: res u(1) u(3) u(4) new(2))
  qed
  show ?thesis
  proof (intro conjI impI allI)
    assume "\<forall>j < length ?bs. j < length upsert_faults \<longrightarrow> \<not> upsert_faults ! j"
    then show "fst result = None" and
      "map fst (new_calls st (snd result)) = deletions @ map Upsert ?bs"
      using ok by simp_all
  next
    fix j
    assume a: "j < length ?bs \<and> j < length upsert_faults \<and> upsert_faults ! j \<and>
              (\<forall>i < j. \<not> upsert_faults ! i)"
    show "fst result = Some StoreError"
      and "map fst (new_calls st (snd result)) = deletions @ map Upsert (take (Suc j) ?bs)"
      and "ifood_conciliation (snd result)
              = foldl (foldl upsert_row) (ifood_conciliation ?st2) (take j ?bs)"
      using fail [OF a] by simp_all
  qed
qed

lemma sanitize_value_PStr: "sanitize_value v = PStr s \<longleftrightarrow> v = PStr s"
  by (auto simp: sanitize_value_def)

lemma competence_key_sanitize: "competence_key (sanitize_record r) = competence_key r"
proof (cases "r ''competence_date''")
  case None
  then show ?thesis by (simp add: competence_key_def get_def sanitize_record_def)
next
  case (Some v)
  show ?thesis
  proof (cases v)
    case (PFloat x)
    then show ?thesis using Some
      by (cases x) (simp_all add: competence_key_def get_def sanitize_record_def sanitize_value_def)
  qed (use Some in \<open>simp_all add: competence_key_def get_def sanitize_record_def sanitize_value_def\<close>)
qed

lemma competence_key_cong:
  "r ''competence_date'' = r' ''competence_date'' \<Longrightarrow> competence_key r = competence_key r'"
  by (simp add: competence_key_def get_def)

lemma competence_key_prepare:
  "competence_key (prepare_record e account_id idx rec) = competence_key rec"
proof -
  have "competence_key (prepare_record e account_id idx rec) = competence_key (sanitize_record rec)"
    by (rule competence_key_cong) (simp add: prepare_record_other)
  then show ?thesis by (simp add: competence_key_sanitize)
qed

lemma competence_key_record:
  assumes "i < length df"
  shows "competence_key (records_to_insert e account_id file_id df ! i) = competence_key (df ! i)"
proof -
  have "competence_key ((df ! i)(''account_id'' \<mapsto> PStr account_id,
          ''received_file_id'' \<mapsto> PStr file_id)) = competence_key (df ! i)"
    by (rule competence_key_cong) simp
  then show ?thesis using assms by (simp add: records_to_insert_nth competence_key_prepare)
qed

lemma unique_records_subset: "set (unique_records seen rs) \<subseteq> set rs"
  by (induction rs arbitrary: seen) (auto simp: Let_def)

lemma single_record:
  "unique_records {} (records_to_insert e account_id file_id [r]) =
     [records_to_insert e account_id file_id [r] ! 0]"
  by (simp add: records_to_insert_def Let_def)

lemma single_competences:
  "competences_to_delete (unique_records {} (records_to_insert e account_id file_id [r]))
     = competences_to_delete [r]"
proof -
  have "competence_key (records_to_insert e account_id file_id [r] ! 0) = competence_key ([r] ! 0)"
    by (rule competence_key_record) simp
  then show ?thesis
    by (simp add: single_record competences_to_delete_def)
qed

lemma june_unique_bounds:
  "valid_bounds (competences_to_delete
     (unique_records {} (records_to_insert e account_id file_id june_records)))
   = [(''2024-06-01'', ''2024-07-01'')]"
  using june_bounds by (simp add: june_records_def single_competences)

lemma june_batches:
  "length (batches 100 (unique_records {} (records_to_insert e account_id file_id june_records))) = 1"
  by (simp add: june_records_def single_record batches_def)

theorem deletion_failures_tolerated_upsert_failure_fatal_witness:
  "fst (save_data_in_batches sample_env june_records ''acc'' ''file-1''
          (example_store\<lparr>faults := [True, True, False]\<rparr>)) = None \<and>
   fst (save_data_in_batches sample_env june_records ''acc'' ''file-1''
          (example_store\<lparr>faults := [False, False, True]\<rparr>)) = Some StoreError"
  using deletion_failures_tolerated_upsert_failure_fatal
      [of sample_env "''acc''" "''file-1''" june_records
          "example_store\<lparr>faults := [True, True, False]\<rparr>", THEN conjunct1]
    deletion_failures_tolerated_upsert_failure_fatal
      [of sample_env "''acc''" "''file-1''" june_records
          "example_store\<lparr>faults := [False, False, True]\<rparr>", THEN conjunct2, THEN spec, of 0]
  by (simp add: june_unique_bounds june_batches)

lemma upsert_batches_calls:
  "\<exists>new n. calls (snd (upsert_batches bs st)) = calls st @ new \<and>
           map fst new = map Upsert (take n bs)"
proof (induction bs arbitrary: st)
  case Nil
  then show ?case by simp
next
  case (Cons b bs)
  let ?st1 = "snd (execute (Upsert b) st)"
  show ?case
  proof (cases "next_fails st")
    case True
    have "calls (snd (upsert_batches (b # bs) st)) = calls st @ [(Upsert b, False)]"
      using True by (simp add: upsert_batches_Cons execute_calls del: upsert_batches.simps)
    moreover have "map fst [(Upsert b, False)] = map Upsert (take 1 (b # bs))" by simp
    ultimately show ?thesis by (intro exI conjI)
  next
    case False
    from Cons [of ?st1] obtain new n where
      ih: "calls (snd (upsert_batches bs ?st1)) = calls ?st1 @ new"
        "map fst new = map Upsert (take n bs)"
      by (elim exE conjE)
    have "calls (snd (upsert_batches (b # bs) st)) = calls st @ ((Upsert b, True) # new)"
      using False by (simp add: upsert_batches_Cons ih(1) execute_calls del: upsert_batches.simps)
    moreover have "map fst ((Upsert b, True) # new) = map Upsert (take (Suc n) (b # bs))"
      by (simp add: ih(2))
    ultimately show ?thesis by (intro exI conjI)
  qed
qed

lemma save_calls:
  "\<exists>n. map fst (new_calls st (snd (save_data_in_batches e df account_id file_id st))) =
     DeleteFile file_id #
       map (\<lambda>(lo, hi). DeletePeriod account_id lo hi)
         (valid_bounds (competences_to_delete
            (unique_records {} (records_to_insert e account_id file_id df)))) @
       map Upsert (take n (batches 100 (unique_records {} (records_to_insert e account_id file_id df))))"
proof -
  let ?unique = "unique_records {} (records_to_insert e account_id file_id df)"
  let ?st2 = "delete_periods account_id ?unique (delete_file_records file_id st)"
  obtain new where new: "calls ?st2 = calls st @ new"
    "map fst new = DeleteFile file_id #
       map (\<lambda>(lo, hi). DeletePeriod account_id lo hi) (valid_bounds (competences_to_delete ?unique))"
    using deletions_calls [of account_id ?unique file_id st] by (elim exE conjE)
  obtain new' n where new': "calls (snd (upsert_batches (batches 100 ?unique) ?st2)) = calls ?st2 @ new'"
    "map fst new' = map Upsert (take n (batches 100 ?unique))"
    using upsert_batches_calls [of "batches 100 ?unique" ?st2] by (elim exE conjE)
  have "calls (snd (save_data_in_batches e df account_id file_id st)) = calls st @ (new @ new')"
    by (simp add: save_data_in_batches_eq new(1) new'(1))
  then have "new_calls st (snd (save_data_in_batches e df account_id file_id st)) = new @ new'"
    by (rule new_calls_append)
  then have "map fst (new_calls st (snd (save_data_in_batches e df account_id file_id st))) =
     DeleteFile file_id #
       map (\<lambda>(lo, hi). DeletePeriod account_id lo hi) (valid_bounds (competences_to_delete ?unique)) @
       map Upsert (take n (batches 100 ?unique))"
    by (simp add: new(2) new'(2))
  then show ?thesis by (rule exI)
qed

end
